theory Spec2Isabelle
  imports Complex_Main "HOL-Library.AList" "HOL-Library.Sublist"
begin

section \<open>Fantasy stocks: draft order\<close>

text \<open>
  \<^verbatim>\<open>get_snake_order(players, total_rounds)\<close> (src/app.py and src/api/app.py, identical):
  the loop \<^verbatim>\<open>for i in range(total_rounds)\<close> extends \<^verbatim>\<open>order\<close> with the players, forward
  when \<^verbatim>\<open>i % 2 == 0\<close> and reversed otherwise. The callers pass 1, 5 or 10 rounds,
  so the round count is a natural number.
\<close>

definition snake_step :: "'a list \<Rightarrow> nat \<Rightarrow> 'a list \<Rightarrow> 'a list" where
  "snake_step players i order =
     (if i mod 2 = 0 then order @ players else order @ rev players)"

definition get_snake_order :: "'a list \<Rightarrow> nat \<Rightarrow> 'a list" where
  "get_snake_order players total_rounds = fold (snake_step players) [0..<total_rounds] []"

section \<open>Python floats\<close>

text \<open>
  A Python float is an IEEE double: not a number, an infinity, or finite. \<open>Fin\<close> carries
  the exact value of a finite one; the two zeros are one value, as they are equal, both
  false as a condition, and both raise as a divisor. An arithmetic operation on finite
  doubles gives the exact result rounded to a double. That rounding (to the nearest
  double, to an infinity when the result is too large) is the parameter \<open>rnd\<close> of the
  operations below; the theorems assume nothing about it, so they hold of the doubles.
\<close>

datatype fl = NegInf | Fin real | PosInf | NaN

type_synonym rounding = "real \<Rightarrow> fl"

text \<open>\<^verbatim>\<open>a < b\<close>: false whenever one side is not a number.\<close>

fun fl_less :: "fl \<Rightarrow> fl \<Rightarrow> bool" where
  "fl_less NaN b = False"
| "fl_less a NaN = False"
| "fl_less a NegInf = False"
| "fl_less NegInf b = True"
| "fl_less PosInf b = False"
| "fl_less (Fin a) PosInf = True"
| "fl_less (Fin a) (Fin b) = (a < b)"

text \<open>\<^verbatim>\<open>a <= b\<close>: false as well whenever one side is not a number.\<close>

definition fl_le :: "fl \<Rightarrow> fl \<Rightarrow> bool" where
  "fl_le a b = (a \<noteq> NaN \<and> b \<noteq> NaN \<and> \<not> fl_less b a)"

fun fl_add :: "rounding \<Rightarrow> fl \<Rightarrow> fl \<Rightarrow> fl" where
  "fl_add rnd NaN b = NaN"
| "fl_add rnd a NaN = NaN"
| "fl_add rnd (Fin a) (Fin b) = rnd (a + b)"
| "fl_add rnd PosInf NegInf = NaN"
| "fl_add rnd NegInf PosInf = NaN"
| "fl_add rnd PosInf b = PosInf"
| "fl_add rnd a PosInf = PosInf"
| "fl_add rnd NegInf b = NegInf"
| "fl_add rnd a NegInf = NegInf"

fun fl_sub :: "rounding \<Rightarrow> fl \<Rightarrow> fl \<Rightarrow> fl" where
  "fl_sub rnd NaN b = NaN"
| "fl_sub rnd a NaN = NaN"
| "fl_sub rnd (Fin a) (Fin b) = rnd (a - b)"
| "fl_sub rnd PosInf PosInf = NaN"
| "fl_sub rnd NegInf NegInf = NaN"
| "fl_sub rnd PosInf b = PosInf"
| "fl_sub rnd NegInf b = NegInf"
| "fl_sub rnd a PosInf = NegInf"
| "fl_sub rnd a NegInf = PosInf"

fun fl_mul :: "rounding \<Rightarrow> fl \<Rightarrow> fl \<Rightarrow> fl" where
  "fl_mul rnd NaN b = NaN"
| "fl_mul rnd a NaN = NaN"
| "fl_mul rnd (Fin a) (Fin b) = rnd (a * b)"
| "fl_mul rnd (Fin a) PosInf = (if a = 0 then NaN else if 0 < a then PosInf else NegInf)"
| "fl_mul rnd (Fin a) NegInf = (if a = 0 then NaN else if 0 < a then NegInf else PosInf)"
| "fl_mul rnd PosInf (Fin b) = (if b = 0 then NaN else if 0 < b then PosInf else NegInf)"
| "fl_mul rnd NegInf (Fin b) = (if b = 0 then NaN else if 0 < b then NegInf else PosInf)"
| "fl_mul rnd PosInf PosInf = PosInf"
| "fl_mul rnd PosInf NegInf = NegInf"
| "fl_mul rnd NegInf PosInf = NegInf"
| "fl_mul rnd NegInf NegInf = PosInf"

text \<open>\<^verbatim>\<open>a / b\<close> for a divisor that is not zero; Python raises \<^verbatim>\<open>ZeroDivisionError\<close> on a zero
  divisor, which the callers below test before they divide.\<close>

fun fl_div :: "rounding \<Rightarrow> fl \<Rightarrow> fl \<Rightarrow> fl" where
  "fl_div rnd NaN b = NaN"
| "fl_div rnd a NaN = NaN"
| "fl_div rnd (Fin a) (Fin b) = rnd (a / b)"
| "fl_div rnd (Fin a) PosInf = Fin 0"
| "fl_div rnd (Fin a) NegInf = Fin 0"
| "fl_div rnd PosInf (Fin b) = (if 0 < b then PosInf else NegInf)"
| "fl_div rnd NegInf (Fin b) = (if 0 < b then NegInf else PosInf)"
| "fl_div rnd PosInf b = NaN"
| "fl_div rnd NegInf b = NaN"

text \<open>A float divided by a positive count.\<close>

fun fl_div_nat :: "rounding \<Rightarrow> fl \<Rightarrow> nat \<Rightarrow> fl" where
  "fl_div_nat rnd (Fin a) n = rnd (a / real n)"
| "fl_div_nat rnd a n = a"

text \<open>
  \<^verbatim>\<open>round(x, 2)\<close> of a Python float: the exact value of \<open>x\<close> goes to the nearest multiple
  of 0.01, a tie to the even one (\<open>py_round2\<close>), and the result is the double nearest to
  that decimal. An infinity and a NaN are returned as they are.
\<close>

definition py_round2 :: "real \<Rightarrow> real" where
  "py_round2 x =
     (let y = x * 100; f = \<lfloor>y\<rfloor>; r = y - of_int f in
      (if r < 1 / 2 then of_int f
       else if 1 / 2 < r then of_int (f + 1)
       else if even f then of_int f else of_int (f + 1)) / 100)"

fun fl_round2 :: "rounding \<Rightarrow> fl \<Rightarrow> fl" where
  "fl_round2 rnd (Fin a) = rnd (py_round2 a)"
| "fl_round2 rnd a = a"

section \<open>Price cache and quote fetcher\<close>

text \<open>
  Times (\<^verbatim>\<open>time.time()\<close>, \<^verbatim>\<open>datetime.now()\<close>) are real numbers; prices are Python floats. Strings are ASCII: \<^verbatim>\<open>str.upper\<close> maps a..z to A..Z and
  \<^verbatim>\<open>str.strip\<close> removes the ASCII whitespace characters at both ends.
\<close>

definition upper_char :: "char \<Rightarrow> char" where
  "upper_char c =
     (case map_of (zip ''abcdefghijklmnopqrstuvwxyz'' ''ABCDEFGHIJKLMNOPQRSTUVWXYZ'') c of
        Some u \<Rightarrow> u
      | None \<Rightarrow> c)"

definition upper :: "string \<Rightarrow> string" where
  "upper s = map upper_char s"

definition is_space :: "char \<Rightarrow> bool" where
  "is_space c =
     (c \<in> set [CHR 0x09, CHR 0x0A, CHR 0x0B, CHR 0x0C, CHR 0x0D,
                CHR 0x1C, CHR 0x1D, CHR 0x1E, CHR 0x1F, CHR '' ''])"

definition strip :: "string \<Rightarrow> string" where
  "strip s = rev (dropWhile is_space (rev (dropWhile is_space s)))"

text \<open>The value \<^verbatim>\<open>{'currentPrice': float(current)}\<close> and a cache entry
  \<^verbatim>\<open>{'info': info, 'timestamp': time.time()}\<close>.\<close>

record stock_info =
  currentPrice :: fl

record cache_entry =
  info :: stock_info
  timestamp :: real

text \<open>
  What one call \<^verbatim>\<open>yf.Ticker(ticker).history(period='1d')\<close> can do inside the \<^verbatim>\<open>try\<close> of
  \<^verbatim>\<open>fetch_stock_info\<close>: return an empty frame, return a frame whose last close is the
  given float (a NaN, which pandas uses for a missing value, included), raise \<^verbatim>\<open>HTTPError\<close> with status 429, raise \<^verbatim>\<open>HTTPError\<close> with another
  status, or raise any other exception.
\<close>

datatype outcome = Empty | Close fl | RateLimited | HttpError | OtherError

text \<open>
  The quote source is a parameter \<open>src\<close>: the outcome of a call for a ticker, given the
  number of calls made before it. The world holds the clock, the cache file, the
  number of calls made to the source and the delays passed to \<^verbatim>\<open>time.sleep\<close>.
\<close>

type_synonym quote_source = "string \<Rightarrow> nat \<Rightarrow> outcome"

record world =
  clock :: real
  cache :: "string \<rightharpoonup> cache_entry"
  calls :: nat
  slept :: "real list"

definition sleep :: "real \<Rightarrow> world \<Rightarrow> world" where
  "sleep delay w = w\<lparr>clock := clock w + delay, slept := slept w @ [delay]\<rparr>"

definition get_cached_stock_info :: "string \<Rightarrow> real \<Rightarrow> world \<Rightarrow> stock_info option" where
  "get_cached_stock_info tk cache_duration w =
     (let now = clock w; tk' = upper tk in
      case cache w tk' of
        Some cached_data \<Rightarrow>
          if now - timestamp cached_data < cache_duration then Some (info cached_data) else None
      | None \<Rightarrow> None)"

definition cache_stock_info :: "string \<Rightarrow> stock_info \<Rightarrow> world \<Rightarrow> world" where
  "cache_stock_info tk i w =
     w\<lparr>cache := (cache w)(upper tk \<mapsto> \<lparr>info = i, timestamp = clock w\<rparr>)\<rparr>"

text \<open>
  \<^verbatim>\<open>fetch_stock_info\<close>: the loop \<^verbatim>\<open>for attempt in range(max_retries)\<close> runs over the list of
  attempts; every branch but the rate-limited one with attempts left returns.
\<close>

fun fetch_attempts ::
  "quote_source \<Rightarrow> string \<Rightarrow> nat \<Rightarrow> nat \<Rightarrow> nat list \<Rightarrow> world \<Rightarrow> stock_info option \<times> world"
where
  "fetch_attempts src tk max_retries initial_delay [] w = (None, w)"
| "fetch_attempts src tk max_retries initial_delay (attempt # rest) w =
     (let w1 = w\<lparr>calls := calls w + 1\<rparr> in
      case src tk (calls w) of
        Empty \<Rightarrow> (None, w1)
      | Close current \<Rightarrow>
          if current \<noteq> Fin 0 then (Some \<lparr>currentPrice = current\<rparr>, w1) else (None, w1)
      | RateLimited \<Rightarrow>
          if attempt < max_retries - 1
          then fetch_attempts src tk max_retries initial_delay rest
                 (sleep (real (initial_delay * 2 ^ attempt)) w1)
          else (None, w1)
      | HttpError \<Rightarrow> (None, w1)
      | OtherError \<Rightarrow> (None, w1))"

definition fetch_stock_info ::
  "quote_source \<Rightarrow> string \<Rightarrow> nat \<Rightarrow> nat \<Rightarrow> world \<Rightarrow> stock_info option \<times> world"
where
  "fetch_stock_info src tk max_retries initial_delay w =
     fetch_attempts src tk max_retries initial_delay [0..<max_retries] w"

text \<open>
  The price lookup that \<^verbatim>\<open>draft\<close>, \<^verbatim>\<open>calculate_points\<close> and \<^verbatim>\<open>game\<close> each write out:
  \<^verbatim>\<open>cached_info = get_cached_stock_info(t)\<close>; if it is there, its price; otherwise
  \<^verbatim>\<open>info = fetch_stock_info(t)\<close> and, when that is not \<^verbatim>\<open>None\<close>, \<^verbatim>\<open>cache_stock_info(t, info)\<close>.
  The defaults are written out: a cache duration of 21600, 5 retries, an initial delay of 10.
\<close>

definition get_price :: "quote_source \<Rightarrow> string \<Rightarrow> world \<Rightarrow> fl option \<times> world" where
  "get_price src tk w =
     (case get_cached_stock_info tk 21600 w of
        Some cached_info \<Rightarrow> (Some (currentPrice cached_info), w)
      | None \<Rightarrow>
          (case fetch_stock_info src tk 5 10 w of
             (Some i, w') \<Rightarrow> (Some (currentPrice i), cache_stock_info tk i w')
           | (None, w') \<Rightarrow> (None, w')))"

section \<open>The game record\<close>

text \<open>
  The JSON record of \<^verbatim>\<open>load_data\<close>/\<^verbatim>\<open>save_data\<close>. Dictionaries whose iteration order the
  code relies on (\<^verbatim>\<open>data['picks']\<close>) are association lists in insertion order. Field names
  follow the source, except where two records would share one or the name is taken:
  \<^verbatim>\<open>max\<close> is \<open>max_picks\<close>, a trade's \<^verbatim>\<open>id\<close> and \<^verbatim>\<open>status\<close> are \<open>trade_id\<close> and \<open>trade_status\<close>,
  a milestone's \<^verbatim>\<open>time\<close>, \<^verbatim>\<open>type\<close> and \<^verbatim>\<open>value\<close> are \<open>mtime\<close>, \<open>mtype\<close> and \<open>mvalue\<close>.
  Dates (ISO strings of \<^verbatim>\<open>datetime.now()\<close>) are clock readings.
\<close>

record pick =
  ticker :: string
  price :: fl
  time :: real

record player =
  name :: string
  max_picks :: nat
  picked :: "string list"

record trade =
  trade_id :: int
  from_player :: string
  to_player :: string
  offer_ticker :: string
  request_ticker :: string
  trade_status :: string

record milestone =
  mtime :: real
  mtype :: string
  winner :: "string option"
  mvalue :: fl

datatype phase = Setup | Draft | Done | Finished

record game_data =
  players :: "player list"
  draft_order :: "string list"
  picks :: "(string \<times> pick list) list"
  status :: phase
  all_picks :: "string list"
  time_frame :: "string option"
  start_date :: "real option"
  end_date :: "real option"
  trades :: "trade list"
  milestones :: "milestone list"
  trade_limits :: "(string \<times> int) list"

text \<open>The record \<^verbatim>\<open>load_data\<close> returns when there is no file, and \<^verbatim>\<open>new_game\<close> writes.\<close>

definition blank_record :: game_data where
  "blank_record =
     \<lparr>players = [], draft_order = [], picks = [], status = Setup, all_picks = [],
      time_frame = None, start_date = None, end_date = None, trades = [],
      milestones = [], trade_limits = []\<rparr>"

datatype py_error = IndexError | ValueError | KeyError | StopIteration

section \<open>Draft engine: the POST branch of \<^verbatim>\<open>draft\<close>\<close>

text \<open>\<^verbatim>\<open>d.setdefault(k, []).append(x)\<close> on a dictionary in insertion order.\<close>

fun setdefault_append :: "'k \<Rightarrow> 'v \<Rightarrow> ('k \<times> 'v list) list \<Rightarrow> ('k \<times> 'v list) list" where
  "setdefault_append k x [] = [(k, [x])]"
| "setdefault_append k x ((k', v) # rest) =
     (if k' = k then (k', v @ [x]) # rest else (k', v) # setdefault_append k x rest)"

datatype draft_outcome = EmptyTicker | DuplicatePick | UnknownTicker | PickRecorded

text \<open>
  Each of the three error branches evaluates \<^verbatim>\<open>current_player = data['draft_order'][0]\<close>
  before it renders its page: on an empty queue that raises \<^verbatim>\<open>IndexError\<close>.
\<close>

definition error_page :: "draft_outcome \<Rightarrow> game_data \<Rightarrow> py_error + draft_outcome" where
  "error_page e d = (if draft_order d = [] then Inl IndexError else Inr e)"

text \<open>
  The result is the response, the world and the record on file afterwards.
  \<^verbatim>\<open>save_data\<close> is the last statement before the redirect, so a request that raises
  (\<^verbatim>\<open>draft_order.remove(name)\<close> raises \<^verbatim>\<open>ValueError\<close> when the name is not queued) leaves the
  file as it was. \<^verbatim>\<open>list.remove\<close> deletes the first equal entry, which is \<^const>\<open>remove1\<close>.
\<close>

definition draft_post ::
  "quote_source \<Rightarrow> string \<Rightarrow> string \<Rightarrow> world \<Rightarrow> game_data \<Rightarrow>
     (py_error + draft_outcome) \<times> world \<times> game_data"
where
  "draft_post src nm raw w d =
     (let tk = strip (upper raw) in
      if tk = [] then (error_page EmptyTicker d, w, d)
      else if tk \<in> set (all_picks d) then (error_page DuplicatePick d, w, d)
      else
        (case get_price src tk w of
           (None, w') \<Rightarrow> (error_page UnknownTicker d, w', d)
         | (Some current, w') \<Rightarrow>
             if nm \<in> set (draft_order d)
             then (Inr PickRecorded, w',
                   d\<lparr>picks := setdefault_append nm
                               \<lparr>ticker = tk, price = current, time = clock w'\<rparr> (picks d),
                     all_picks := all_picks d @ [tk],
                     players := map (\<lambda>p. if name p = nm then p\<lparr>picked := picked p @ [tk]\<rparr> else p)
                                  (players d),
                     draft_order := remove1 nm (draft_order d)\<rparr>)
             else (Inl ValueError, w', d)))"

section \<open>Trade engine: the POST branch of \<^verbatim>\<open>trade\<close>\<close>

datatype trade_outcome = Redirected | InvalidTrade | Saved

text \<open>\<^verbatim>\<open>action == 'propose'\<close>. \<^verbatim>\<open>trade_limits.get(from_player, 0)\<close> is 0 for an unknown player.\<close>

definition trade_propose ::
  "string \<Rightarrow> string \<Rightarrow> string \<Rightarrow> string \<Rightarrow> game_data \<Rightarrow> trade_outcome \<times> game_data"
where
  "trade_propose fp tp offer req d =
     (if status d \<noteq> Done then (Redirected, d)
      else
        (let limit = (case map_of (trade_limits d) fp of None \<Rightarrow> 0 | Some n \<Rightarrow> n) in
         if fp = tp \<or> limit \<le> 0 then (InvalidTrade, d)
         else (Saved,
               d\<lparr>trades := trades d @
                    [\<lparr>trade_id = int (length (trades d)) + 1, from_player = fp, to_player = tp,
                      offer_ticker = offer, request_ticker = req, trade_status = ''pending''\<rparr>],
                 trade_limits := AList.update fp (limit - 1) (trade_limits d)\<rparr>)))"

text \<open>
  \<^verbatim>\<open>action == 'respond'\<close>. \<^verbatim>\<open>next((t for t in data['trades'] if t['id'] == trade_id), None)\<close>
  is the first trade with the id, whatever its status; \<^verbatim>\<open>trade['status'] = response\<close>
  writes into that entry of the list.
\<close>

fun set_status_first :: "int \<Rightarrow> string \<Rightarrow> trade list \<Rightarrow> trade list" where
  "set_status_first i resp [] = []"
| "set_status_first i resp (t # ts) =
     (if trade_id t = i then t\<lparr>trade_status := resp\<rparr> # ts
      else t # set_status_first i resp ts)"

text \<open>
  The pick lists are objects stored in \<^verbatim>\<open>data['picks']\<close>: \<^verbatim>\<open>from_picks\<close> and \<^verbatim>\<open>to_picks\<close>
  are the same list when the two players coincide. Every list operation therefore reads
  and writes the list under its key. \<^verbatim>\<open>list.remove\<close> raises \<^verbatim>\<open>ValueError\<close> when the element is
  not there.
\<close>

definition list_remove :: "string \<Rightarrow> pick \<Rightarrow> (string \<times> pick list) list \<Rightarrow>
    py_error + (string \<times> pick list) list" where
  "list_remove k x ps =
     (case map_of ps k of
        None \<Rightarrow> Inl KeyError
      | Some l \<Rightarrow> if x \<in> set l then Inr (AList.update k (remove1 x l) ps) else Inl ValueError)"

definition list_append :: "string \<Rightarrow> pick \<Rightarrow> (string \<times> pick list) list \<Rightarrow>
    py_error + (string \<times> pick list) list" where
  "list_append k x ps =
     (case map_of ps k of
        None \<Rightarrow> Inl KeyError
      | Some l \<Rightarrow> Inr (AList.update k (l @ [x]) ps))"

definition swap_picks :: "trade \<Rightarrow> (string \<times> pick list) list \<Rightarrow>
    py_error + (string \<times> pick list) list" where
  "swap_picks t ps =
     (case map_of ps (from_player t) of
        None \<Rightarrow> Inl KeyError
      | Some from_picks \<Rightarrow>
     (case map_of ps (to_player t) of
        None \<Rightarrow> Inl KeyError
      | Some to_picks \<Rightarrow>
     (case find (\<lambda>p. ticker p = offer_ticker t) from_picks of
        None \<Rightarrow> Inl StopIteration
      | Some from_pick \<Rightarrow>
     (case find (\<lambda>p. ticker p = request_ticker t) to_picks of
        None \<Rightarrow> Inl StopIteration
      | Some to_pick \<Rightarrow>
     (case list_remove (from_player t) from_pick ps of
        Inl e \<Rightarrow> Inl e
      | Inr ps1 \<Rightarrow>
     (case list_remove (to_player t) to_pick ps1 of
        Inl e \<Rightarrow> Inl e
      | Inr ps2 \<Rightarrow>
     (case list_append (from_player t) to_pick ps2 of
        Inl e \<Rightarrow> Inl e
      | Inr ps3 \<Rightarrow> list_append (to_player t) from_pick ps3)))))))"

text \<open>The loop over \<^verbatim>\<open>data['players']\<close> that updates each \<^verbatim>\<open>picked\<close> list.\<close>

fun swap_picked :: "trade \<Rightarrow> player list \<Rightarrow> py_error + player list" where
  "swap_picked t [] = Inr []"
| "swap_picked t (p # ps) =
     (if name p = from_player t then
        (if offer_ticker t \<in> set (picked p) then
           (case swap_picked t ps of
              Inl e \<Rightarrow> Inl e
            | Inr ps' \<Rightarrow>
                Inr (p\<lparr>picked := remove1 (offer_ticker t) (picked p) @ [request_ticker t]\<rparr> # ps'))
         else Inl ValueError)
      else if name p = to_player t then
        (if request_ticker t \<in> set (picked p) then
           (case swap_picked t ps of
              Inl e \<Rightarrow> Inl e
            | Inr ps' \<Rightarrow>
                Inr (p\<lparr>picked := remove1 (request_ticker t) (picked p) @ [offer_ticker t]\<rparr> # ps'))
         else Inl ValueError)
      else
        (case swap_picked t ps of
           Inl e \<Rightarrow> Inl e
         | Inr ps' \<Rightarrow> Inr (p # ps')))"

text \<open>
  The result is the record on file afterwards, or the exception that ended the request
  before \<^verbatim>\<open>save_data\<close> (the file then keeps the record it had).
\<close>

definition trade_respond :: "int \<Rightarrow> string \<Rightarrow> game_data \<Rightarrow> py_error + game_data" where
  "trade_respond i response d =
     (if status d \<noteq> Done then Inr d
      else
        (case find (\<lambda>t. trade_id t = i) (trades d) of
           None \<Rightarrow> Inr d
         | Some t \<Rightarrow>
             (let d1 = d\<lparr>trades := set_status_first i response (trades d)\<rparr> in
              if response = ''accepted'' then
                (case swap_picks t (picks d1) of
                   Inl e \<Rightarrow> Inl e
                 | Inr ps \<Rightarrow>
                     (case swap_picked t (players d1) of
                        Inl e \<Rightarrow> Inl e
                      | Inr pl \<Rightarrow> Inr (d1\<lparr>picks := ps, players := pl\<rparr>)))
              else Inr d1)))"

section \<open>Invariants of the game record\<close>

text \<open>
  Two invariants of the data model that the draft establishes and a trade relies on:
  each player's \<^verbatim>\<open>picked\<close> list is the list of tickers of the player's picks, and no
  ticker is held twice (the keys of \<^verbatim>\<open>data['picks']\<close> are distinct, as in any dictionary).
\<close>

definition picked_consistent :: "game_data \<Rightarrow> bool" where
  "picked_consistent d =
     (\<forall>p \<in> set (players d).
        picked p = (case map_of (picks d) (name p) of None \<Rightarrow> [] | Some l \<Rightarrow> map ticker l))"

definition tickers_unique :: "game_data \<Rightarrow> bool" where
  "tickers_unique d =
     (distinct (map fst (picks d)) \<and>
      (\<forall>(pn, l) \<in> set (picks d). distinct (map ticker l)) \<and>
      (\<forall>(pn, l) \<in> set (picks d). \<forall>(qn, m) \<in> set (picks d).
         pn \<noteq> qn \<longrightarrow> ticker ` set l \<inter> ticker ` set m = {}))"

text \<open>Every ticker held is in the registry \<^verbatim>\<open>all_picks\<close> that the draft checks.\<close>

definition picks_registered :: "game_data \<Rightarrow> bool" where
  "picks_registered d = (\<forall>(pn, l) \<in> set (picks d). ticker ` set l \<subseteq> set (all_picks d))"

section \<open>Scoring engine\<close>

text \<open>
  \<^verbatim>\<open>calculate_points\<close>. A pick without a price is skipped by \<^verbatim>\<open>continue\<close>; a pick whose
  draft price is zero raises \<^verbatim>\<open>ZeroDivisionError\<close> inside the \<^verbatim>\<open>try\<close> and is skipped too.
  \<^verbatim>\<open>total_change\<close> starts as 0 and takes each change by a float addition; the result is
  \<^verbatim>\<open>round(total_change / count, 2)\<close>, or 0 when nothing was counted.
\<close>

fun points_loop ::
  "rounding \<Rightarrow> quote_source \<Rightarrow> pick list \<Rightarrow> fl \<Rightarrow> nat \<Rightarrow> world \<Rightarrow> (fl \<times> nat) \<times> world"
where
  "points_loop rnd src [] total_change count w = ((total_change, count), w)"
| "points_loop rnd src (pk # rest) total_change count w =
     (case get_price src (ticker pk) w of
        (None, w') \<Rightarrow> points_loop rnd src rest total_change count w'
      | (Some current, w') \<Rightarrow>
          if price pk = Fin 0 then points_loop rnd src rest total_change count w'
          else points_loop rnd src rest
                 (fl_add rnd total_change
                    (fl_mul rnd (fl_div rnd (fl_sub rnd current (price pk)) (price pk)) (Fin 100)))
                 (count + 1) w')"

definition calculate_points ::
  "rounding \<Rightarrow> quote_source \<Rightarrow> pick list \<Rightarrow> world \<Rightarrow> fl \<times> world"
where
  "calculate_points rnd src pks w =
     (if pks = [] then (Fin 0, w)
      else
        (case points_loop rnd src pks (Fin 0) 0 w of
           ((total_change, count), w') \<Rightarrow>
             ((if count > 0 then fl_round2 rnd (fl_div_nat rnd total_change count) else Fin 0),
              w')))"

text \<open>A leaderboard row \<^verbatim>\<open>{'name': player, 'points': points, 'bonus': bonus}\<close>.\<close>

record lb_entry =
  lb_name :: string
  points :: fl
  bonus :: nat

text \<open>
  What the code takes from the Python runtime and from numpy, as parameters:
  the rounding of the doubles; numpy's summation inside \<^verbatim>\<open>np.mean\<close>; \<^verbatim>\<open>round(x, 2)\<close> of a
  numpy float, which is numpy's own in some versions and Python's in others; and
  \<^verbatim>\<open>list.sort(key=lambda x: x['points'], reverse=True)\<close> on the leaderboard, whose result
  on keys that \<^verbatim>\<open><\<close> does not order (a NaN among them) depends on the sorting algorithm.
\<close>

record runtime =
  round_double :: rounding
  np_sum :: "fl list \<Rightarrow> fl"
  np_round2 :: "fl \<Rightarrow> fl"
  list_sort :: "lb_entry list \<Rightarrow> lb_entry list"

text \<open>
  \<^verbatim>\<open>calculate_volatility\<close>. The history source \<open>hv\<close> gives, for a ticker and the window
  from \<^verbatim>\<open>start\<close> to \<^verbatim>\<open>min(now, end)\<close>, the number \<^verbatim>\<open>returns.std() * np.sqrt(252)\<close> that pandas
  and numpy compute from the history, or nothing when the history is empty or the
  call raises (the inner \<^verbatim>\<open>except: continue\<close>). \<^verbatim>\<open>np.mean\<close> divides numpy's sum by the
  number of values. A date that is \<^verbatim>\<open>None\<close> makes \<^verbatim>\<open>datetime.fromisoformat\<close> raise, which
  the outer \<^verbatim>\<open>except\<close> turns into infinity.
\<close>

type_synonym history_source = "string \<Rightarrow> real \<Rightarrow> real \<Rightarrow> fl option"

definition calculate_volatility ::
  "runtime \<Rightarrow> history_source \<Rightarrow> pick list \<Rightarrow> real option \<Rightarrow> real option \<Rightarrow> world \<Rightarrow> fl"
where
  "calculate_volatility rt hv pks start_d end_d w =
     (case start_d of
        None \<Rightarrow> PosInf
      | Some s \<Rightarrow>
     (case end_d of
        None \<Rightarrow> PosInf
      | Some e \<Rightarrow>
          (let volatilities = List.map_filter (\<lambda>pk. hv (ticker pk) s (min (clock w) e)) pks
           in if volatilities = [] then PosInf
              else fl_div_nat (round_double rt) (np_sum rt volatilities)
                     (length volatilities))))"

section \<open>Milestones and the game summary: \<^verbatim>\<open>game\<close>\<close>

text \<open>\<^verbatim>\<open>not milestone['winner']\<close>: the winner is \<^verbatim>\<open>None\<close> or the empty string.\<close>

definition no_winner :: "string option \<Rightarrow> bool" where
  "no_winner win = (case win of None \<Rightarrow> True | Some n \<Rightarrow> n = [])"

fun gain_picks_loop ::
  "rounding \<Rightarrow> quote_source \<Rightarrow> string \<Rightarrow> pick list \<Rightarrow> fl \<times> string option \<Rightarrow> world \<Rightarrow>
     (fl \<times> string option) \<times> world"
where
  "gain_picks_loop rnd src pn [] acc w = (acc, w)"
| "gain_picks_loop rnd src pn (pk # rest) acc w =
     (case get_price src (ticker pk) w of
        (None, w') \<Rightarrow> gain_picks_loop rnd src pn rest acc w'
      | (Some current, w') \<Rightarrow>
          if price pk = Fin 0 then gain_picks_loop rnd src pn rest acc w'
          else
            (let gain = fl_mul rnd (fl_div rnd (fl_sub rnd current (price pk)) (price pk))
                          (Fin 100) in
             if fl_less (fst acc) gain
             then gain_picks_loop rnd src pn rest (gain, Some pn) w'
             else gain_picks_loop rnd src pn rest acc w'))"

fun gain_loop ::
  "rounding \<Rightarrow> quote_source \<Rightarrow> (string \<times> pick list) list \<Rightarrow> fl \<times> string option \<Rightarrow> world \<Rightarrow>
     (fl \<times> string option) \<times> world"
where
  "gain_loop rnd src [] acc w = (acc, w)"
| "gain_loop rnd src ((pn, pks) # rest) acc w =
     (case gain_picks_loop rnd src pn pks acc w of
        (acc', w') \<Rightarrow> gain_loop rnd src rest acc' w')"

text \<open>The loop of the \<^verbatim>\<open>lowest_volatility\<close> branch; the accumulator is
  \<^verbatim>\<open>(min_volatility, winner)\<close> and starts as \<^verbatim>\<open>(float('inf'), None)\<close>.\<close>

fun vol_loop ::
  "runtime \<Rightarrow> history_source \<Rightarrow> (string \<times> pick list) list \<Rightarrow> real option \<Rightarrow> real option \<Rightarrow>
     world \<Rightarrow> fl \<times> string option \<Rightarrow> fl \<times> string option"
where
  "vol_loop rt hv [] start_d end_d w acc = acc"
| "vol_loop rt hv ((pn, pks) # rest) start_d end_d w acc =
     (let volatility = calculate_volatility rt hv pks start_d end_d w in
      if fl_less volatility (fst acc)
      then vol_loop rt hv rest start_d end_d w (volatility, Some pn)
      else vol_loop rt hv rest start_d end_d w acc)"

text \<open>
  \<^verbatim>\<open>milestone['value'] = round(..., 2)\<close>. \<^verbatim>\<open>max_gain\<close> is a Python float. \<^verbatim>\<open>min_volatility\<close>
  is the Python float of its initialisation as long as \<^verbatim>\<open>winner\<close> is \<^verbatim>\<open>None\<close>, and the
  numpy float of a player once the loop has assigned the two together.
\<close>

definition resolve_milestone ::
  "runtime \<Rightarrow> quote_source \<Rightarrow> history_source \<Rightarrow> game_data \<Rightarrow> milestone \<Rightarrow> world \<Rightarrow>
     milestone \<times> world"
where
  "resolve_milestone rt src hv d m w =
     (if mtype m = ''highest_gain'' then
        (case gain_loop (round_double rt) src (picks d) (NegInf, None) w of
           ((max_gain, win), w') \<Rightarrow>
             (m\<lparr>winner := win, mvalue := fl_round2 (round_double rt) max_gain\<rparr>, w'))
      else if mtype m = ''lowest_volatility'' then
        (case vol_loop rt hv (picks d) (start_date d) (end_date d) w (PosInf, None) of
           (min_volatility, win) \<Rightarrow>
             (m\<lparr>winner := win,
                mvalue := (case win of
                             None \<Rightarrow> fl_round2 (round_double rt) min_volatility
                           | Some pn \<Rightarrow> np_round2 rt min_volatility)\<rparr>, w))
      else (m, w))"

fun process_milestones ::
  "runtime \<Rightarrow> quote_source \<Rightarrow> history_source \<Rightarrow> game_data \<Rightarrow> real \<Rightarrow> milestone list \<Rightarrow>
     world \<Rightarrow> milestone list \<times> world"
where
  "process_milestones rt src hv d now [] w = ([], w)"
| "process_milestones rt src hv d now (m # rest) w =
     (case (if mtime m \<le> now \<and> no_winner (winner m)
            then resolve_milestone rt src hv d m w else (m, w)) of
        (m', w') \<Rightarrow>
          (case process_milestones rt src hv d now rest w' of
             (rest', w'') \<Rightarrow> (m' # rest', w'')))"

text \<open>
  The per-pick rows of the summary; they look each price up again. The change is
  \<^verbatim>\<open>round(change, 2)\<close>, where \<^verbatim>\<open>change\<close> is the integer 0 when there is no current price
  (or a zero one) and after a \<^verbatim>\<open>ZeroDivisionError\<close>.
\<close>

record summary =
  s_ticker :: string
  draft_price :: fl
  current_price :: "fl option"
  change :: fl

fun summaries_loop ::
  "rounding \<Rightarrow> quote_source \<Rightarrow> pick list \<Rightarrow> world \<Rightarrow> summary list \<times> world"
where
  "summaries_loop rnd src [] w = ([], w)"
| "summaries_loop rnd src (pk # rest) w =
     (case get_price src (ticker pk) w of
        (cur, w') \<Rightarrow>
          (let row =
             (case cur of
                None \<Rightarrow> \<lparr>s_ticker = ticker pk, draft_price = price pk,
                          current_price = None, change = Fin 0\<rparr>
              | Some current \<Rightarrow>
                  if current = Fin 0 then
                    \<lparr>s_ticker = ticker pk, draft_price = price pk,
                     current_price = Some current, change = Fin 0\<rparr>
                  else if price pk = Fin 0 then
                    \<lparr>s_ticker = ticker pk, draft_price = price pk,
                     current_price = None, change = Fin 0\<rparr>
                  else
                    \<lparr>s_ticker = ticker pk, draft_price = price pk,
                     current_price = Some current,
                     change = fl_round2 rnd
                       (fl_mul rnd (fl_div rnd (fl_sub rnd current (price pk)) (price pk))
                          (Fin 100))\<rparr>)
           in case summaries_loop rnd src rest w' of
                (rows, w'') \<Rightarrow> (row # rows, w'')))"

text \<open>\<^verbatim>\<open>bonus = sum(5 for m in milestone_results if m['winner'] == player)\<close>, an integer, and
  \<^verbatim>\<open>points += bonus\<close>.\<close>

definition milestone_bonus :: "milestone list \<Rightarrow> string \<Rightarrow> nat" where
  "milestone_bonus milestone_results pn =
     sum_list (map (\<lambda>m. 5) (filter (\<lambda>m. winner m = Some pn) milestone_results))"

fun leaderboard_loop ::
  "rounding \<Rightarrow> quote_source \<Rightarrow> milestone list \<Rightarrow> (string \<times> pick list) list \<Rightarrow> world \<Rightarrow>
     (lb_entry list \<times> (string \<times> summary list) list) \<times> world"
where
  "leaderboard_loop rnd src ms [] w = (([], []), w)"
| "leaderboard_loop rnd src ms ((pn, pks) # rest) w =
     (case calculate_points rnd src pks w of
        (pts, w1) \<Rightarrow>
          (case summaries_loop rnd src pks w1 of
             (rows, w2) \<Rightarrow>
               (case leaderboard_loop rnd src ms rest w2 of
                  ((lb, tables), w3) \<Rightarrow>
                    ((\<lparr>lb_name = pn,
                       points = fl_add rnd pts (Fin (real (milestone_bonus ms pn))),
                       bonus = milestone_bonus ms pn\<rparr> # lb,
                      (pn, rows) # tables), w3))))"

text \<open>
  The expiry check at the top of \<^verbatim>\<open>game\<close>: \<^verbatim>\<open>if data['end_date']\<close> and
  \<^verbatim>\<open>datetime.now() > end_date\<close>, the status becomes \<^verbatim>\<open>'finished'\<close> and the record is saved.
\<close>

definition check_expiry :: "world \<Rightarrow> game_data \<Rightarrow> game_data \<times> bool" where
  "check_expiry w d =
     (case end_date d of
        None \<Rightarrow> (d, False)
      | Some e \<Rightarrow> if e < clock w then (d\<lparr>status := Finished\<rparr>, True) else (d, False))"

text \<open>
  What \<^verbatim>\<open>game\<close> leaves and shows: the record (every change to it is followed by
  \<^verbatim>\<open>save_data\<close>, so it is the record on file), the leaderboard after
  \<^verbatim>\<open>leaderboard.sort(key=lambda x: x['points'], reverse=True)\<close>, the summaries, the flag
  \<^verbatim>\<open>game_ended\<close> and the world. The plots are left out.
\<close>

record game_page =
  record_after :: game_data
  leaderboard :: "lb_entry list"
  summaries :: "(string \<times> summary list) list"
  game_ended :: bool
  world_after :: world

definition game ::
  "runtime \<Rightarrow> quote_source \<Rightarrow> history_source \<Rightarrow> world \<Rightarrow> game_data \<Rightarrow> game_page"
where
  "game rt src hv w d =
     (case check_expiry w d of
        (d1, ended) \<Rightarrow>
          (case process_milestones rt src hv d1 (clock w) (milestones d1) w of
             (milestone_results, w1) \<Rightarrow>
               (case leaderboard_loop (round_double rt) src milestone_results (picks d1) w1 of
                  ((lb, tables), w2) \<Rightarrow>
                    \<lparr>record_after = d1\<lparr>milestones := milestone_results\<rparr>,
                     leaderboard = list_sort rt lb,
                     summaries = tables,
                     game_ended = ended,
                     world_after = w2\<rparr>)))"

section \<open>The leaderboard and the volatility as the specification words them\<close>







text \<open>
  What the language documents of \<^verbatim>\<open>list.sort\<close>: it is stable, and stays so under
  \<^verbatim>\<open>reverse=True\<close>. On keys that \<^verbatim>\<open><\<close> orders, that is the list in descending order of the
  keys with equal keys in their original order: the insertion sort below, which puts a
  row behind exactly the rows with greater points. The contract asks this of a sort
  only for rows without a NaN among the points.
\<close>

fun insort_desc :: "lb_entry \<Rightarrow> lb_entry list \<Rightarrow> lb_entry list" where
  "insort_desc x [] = [x]"
| "insort_desc x (y # ys) =
     (if fl_less (points x) (points y) then y # insort_desc x ys else x # y # ys)"

definition sort_desc_stable :: "lb_entry list \<Rightarrow> lb_entry list" where
  "sort_desc_stable rows = foldr insort_desc rows []"


text \<open>
  The specification's wording of the volatility of a set of picks over the window from
  the start to \<open>min(now, end)\<close>, to compare \<^const>\<open>calculate_volatility\<close> with: the average
  (numpy's sum divided by the number of values) of the volatilities of the picks that
  yielded a series, and infinity if no pick yielded one. Without both dates there is no
  window, and no pick yields a series.
\<close>

definition yielded_volatilities :: "history_source \<Rightarrow> real \<Rightarrow> real \<Rightarrow> pick list \<Rightarrow> fl list" where
  "yielded_volatilities hv s e pks =
     map the (filter (\<lambda>v. v \<noteq> None) (map (\<lambda>pk. hv (ticker pk) s e) pks))"

definition spec_volatility ::
  "runtime \<Rightarrow> history_source \<Rightarrow> game_data \<Rightarrow> world \<Rightarrow> pick list \<Rightarrow> fl"
where
  "spec_volatility rt hv d w pks =
     (case (start_date d, end_date d) of
        (Some s, Some e) \<Rightarrow>
          (let vs = yielded_volatilities hv s (min (clock w) e) pks in
           if vs = [] then PosInf
           else fl_div_nat (round_double rt) (np_sum rt vs) (length vs))
      | _ \<Rightarrow> PosInf)"

section \<open>Example records\<close>

text \<open>
  Concrete worlds and game records on which the theorems below are instantiated: a
  draft of two players with two rounds, and the game after a one-round draft with one
  trade proposed by ann (her AAPL for bob's MSFT), in its three states. The prices of
  the examples and their percentage changes are doubles, so the exact arithmetic of the
  example runtime is that of the doubles there, up to the last rounding of a result to
  two decimals.
\<close>

definition ex_world :: world where
  "ex_world = \<lparr>clock = 10, cache = Map.empty, calls = 0, slept = []\<rparr>"

definition ex_draft :: game_data where
  "ex_draft =
     \<lparr>players = [\<lparr>name = ''ann'', max_picks = 2, picked = []\<rparr>,
                 \<lparr>name = ''bob'', max_picks = 2, picked = []\<rparr>],
      draft_order = [''ann'', ''bob'', ''bob'', ''ann''], picks = [], status = Draft,
      all_picks = [], time_frame = Some ''1 Quarter'', start_date = Some 0,
      end_date = Some 7776000, trades = [], milestones = [],
      trade_limits = [(''ann'', 3), (''bob'', 3)]\<rparr>"

definition ex_trade :: "string \<Rightarrow> trade" where
  "ex_trade st =
     \<lparr>trade_id = 1, from_player = ''ann'', to_player = ''bob'', offer_ticker = ''AAPL'',
      request_ticker = ''MSFT'', trade_status = st\<rparr>"

definition ex_done :: "string \<Rightarrow> game_data" where
  "ex_done st =
     \<lparr>players = [\<lparr>name = ''ann'', max_picks = 1, picked = [''AAPL'']\<rparr>,
                 \<lparr>name = ''bob'', max_picks = 1, picked = [''MSFT'']\<rparr>],
      draft_order = [],
      picks = [(''ann'', [\<lparr>ticker = ''AAPL'', price = Fin 100, time = 10\<rparr>]),
               (''bob'', [\<lparr>ticker = ''MSFT'', price = Fin 50, time = 20\<rparr>])],
      status = Done, all_picks = [''AAPL'', ''MSFT''], time_frame = Some ''1 Quarter'',
      start_date = Some 0, end_date = Some 7776000, trades = [ex_trade st],
      milestones = [], trade_limits = [(''ann'', 2), (''bob'', 3)]\<rparr>"

definition ex_swapped :: "string \<Rightarrow> game_data" where
  "ex_swapped st =
     \<lparr>players = [\<lparr>name = ''ann'', max_picks = 1, picked = [''MSFT'']\<rparr>,
                 \<lparr>name = ''bob'', max_picks = 1, picked = [''AAPL'']\<rparr>],
      draft_order = [],
      picks = [(''ann'', [\<lparr>ticker = ''MSFT'', price = Fin 50, time = 20\<rparr>]),
               (''bob'', [\<lparr>ticker = ''AAPL'', price = Fin 100, time = 10\<rparr>])],
      status = Done, all_picks = [''AAPL'', ''MSFT''], time_frame = Some ''1 Quarter'',
      start_date = Some 0, end_date = Some 7776000, trades = [ex_trade st],
      milestones = [], trade_limits = [(''ann'', 2), (''bob'', 3)]\<rparr>"

text \<open>
  A sort that meets the contract and returns rows with a NaN among the points as they
  are. CPython's sort does the same on the three rows of \<open>ex_three\<close> below under the
  quote source \<open>ex_src_nan\<close>, whose points are 25.0, nan and 50.0: it compares nan with
  50.0 and 25.0 with nan, finds neither smaller, and takes the rows to be in order.
\<close>

definition ex_sort :: "lb_entry list \<Rightarrow> lb_entry list" where
  "ex_sort rows = (if \<forall>e \<in> set rows. points e \<noteq> NaN then sort_desc_stable rows else rows)"

text \<open>A runtime whose arithmetic is exact, whose numpy sum adds in sequence and whose
  numpy round is Python's.\<close>

definition ex_runtime :: runtime where
  "ex_runtime =
     \<lparr>round_double = Fin, np_sum = foldl (fl_add Fin) (Fin 0), np_round2 = fl_round2 Fin,
      list_sort = ex_sort\<rparr>"





text \<open>
  A game after a draft of two rounds in which ann holds AAPL and TSLA and bob holds MSFT
  and NFLX, a history source that yields a volatility of 0.125 for AAPL, 0.5 for TSLA,
  0.25 for MSFT and no series for anything else, and the second milestone of the game.
\<close>

definition ex_vol_game :: game_data where
  "ex_vol_game =
     \<lparr>players = [\<lparr>name = ''ann'', max_picks = 2, picked = [''AAPL'', ''TSLA'']\<rparr>,
                 \<lparr>name = ''bob'', max_picks = 2, picked = [''MSFT'', ''NFLX'']\<rparr>],
      draft_order = [],
      picks = [(''ann'', [\<lparr>ticker = ''AAPL'', price = Fin 100, time = 10\<rparr>,
                         \<lparr>ticker = ''TSLA'', price = Fin 100, time = 40\<rparr>]),
               (''bob'', [\<lparr>ticker = ''MSFT'', price = Fin 50, time = 20\<rparr>,
                         \<lparr>ticker = ''NFLX'', price = Fin 100, time = 30\<rparr>])],
      status = Done, all_picks = [''AAPL'', ''MSFT'', ''NFLX'', ''TSLA''],
      time_frame = Some ''1 Quarter'', start_date = Some 0, end_date = Some 7776000,
      trades = [], milestones = [], trade_limits = [(''ann'', 3), (''bob'', 3)]\<rparr>"

definition ex_hv :: history_source where
  "ex_hv tk s e =
     (if tk = ''AAPL'' then Some (Fin (1 / 8))
      else if tk = ''TSLA'' then Some (Fin (1 / 2))
      else if tk = ''MSFT'' then Some (Fin (1 / 4))
      else None)"

definition ex_milestone :: milestone where
  "ex_milestone = \<lparr>mtime = 5184000, mtype = ''lowest_volatility'', winner = None, mvalue = PosInf\<rparr>"

section \<open>Properties of the draft order\<close>

lemma get_snake_order_0: "get_snake_order pl 0 = []"
  by (simp add: get_snake_order_def)

lemma get_snake_order_Suc:
  "get_snake_order pl (Suc r) = snake_step pl r (get_snake_order pl r)"
  by (simp add: get_snake_order_def)

lemma length_snake_step: "length (snake_step pl i order) = length order + length pl"
  by (simp add: snake_step_def)

lemma length_get_snake_order:
  "length (get_snake_order pl r) = length pl * r"
  by (induction r) (simp_all add: get_snake_order_0 get_snake_order_Suc length_snake_step)

lemma snake_round_slice:
  "i < r \<Longrightarrow>
   take (length pl) (drop (i * length pl) (get_snake_order pl r)) =
     (if even i then pl else rev pl)"
proof (induction r)
  case 0
  then show ?case by simp
next
  case (Suc r)
  let ?n = "length pl"
  have len: "length (get_snake_order pl r) = r * ?n"
    by (simp add: length_get_snake_order mult.commute)
  show ?case
  proof (cases "i < r")
    case True
    then have "Suc i \<le> r" by simp
    then have "Suc i * ?n \<le> r * ?n" by (rule mult_le_mono1)
    then have le: "i * ?n + ?n \<le> length (get_snake_order pl r)"
      using len by simp
    have "take ?n (drop (i * ?n) (get_snake_order pl r @ zs)) =
          take ?n (drop (i * ?n) (get_snake_order pl r))" for zs
      using le by simp
    then show ?thesis
      using Suc.IH [OF True] by (simp add: get_snake_order_Suc snake_step_def)
  next
    case False
    with Suc.prems have "i = r" by simp
    then show ?thesis
      using len by (simp add: get_snake_order_Suc snake_step_def even_iff_mod_2_eq_zero)
  qed
qed

text \<open>
  C8. For a player list of length N and R rounds the queue built by
  \<^const>\<open>get_snake_order\<close> has length N * R, and the slice of round i (0-indexed, i < R)
  is the player list itself when i is even and the reversed player list when i is odd.
\<close>

theorem C8_snake_order:
  "length (get_snake_order pl r) = length pl * r \<and>
   (\<forall>i<r. take (length pl) (drop (i * length pl) (get_snake_order pl r)) =
       (if even i then pl else rev pl))"
  using length_get_snake_order snake_round_slice by blast

theorem C8_snake_order_witness:
  "length (get_snake_order [''ann'', ''bob'', ''cy''] 3) = 9 \<and>
   take 3 (drop 3 (get_snake_order [''ann'', ''bob'', ''cy''] 3)) = [''cy'', ''bob'', ''ann''] \<and>
   take 3 (drop 6 (get_snake_order [''ann'', ''bob'', ''cy''] 3)) = [''ann'', ''bob'', ''cy'']"
proof -
  note c8 = C8_snake_order [of "[''ann'', ''bob'', ''cy'']" 3]
  have l: "length (get_snake_order [''ann'', ''bob'', ''cy''] 3) = 9"
    using c8 by simp
  have r1: "take 3 (drop 3 (get_snake_order [''ann'', ''bob'', ''cy''] 3)) = [''cy'', ''bob'', ''ann'']"
    using c8 [THEN conjunct2, rule_format, of 1] by (simp add: eval_nat_numeral)
  have r2: "take 3 (drop 6 (get_snake_order [''ann'', ''bob'', ''cy''] 3)) = [''ann'', ''bob'', ''cy'']"
    using c8 [THEN conjunct2, rule_format, of 2] by (simp add: eval_nat_numeral)
  from l r1 r2 show ?thesis by simp
qed

section \<open>Properties of the price cache and the quote fetcher\<close>

lemma upt_5: "[0..<5] = [0, 1, 2, 3, 4]"
  by (simp add: upt_rec)

lemma rate_limited_prefix:
  assumes "\<forall>k<4. src tk (calls w + k) = RateLimited"
  shows "src tk (calls w) = RateLimited" "src tk (Suc (calls w)) = RateLimited"
    "src tk (Suc (Suc (calls w))) = RateLimited"
    "src tk (Suc (Suc (Suc (calls w)))) = RateLimited"
  using assms [rule_format, of 0] assms [rule_format, of 1]
    assms [rule_format, of 2] assms [rule_format, of 3]
  by (simp_all add: eval_nat_numeral)

lemma fetch_limited_then_close:
  assumes "\<forall>k<4. src tk (calls w + k) = RateLimited"
    and "src tk (calls w + 4) = Close p" and "p \<noteq> Fin 0"
  shows "fetch_stock_info src tk 5 10 w =
    (Some \<lparr>currentPrice = p\<rparr>,
     w\<lparr>clock := clock w + 150, calls := calls w + 5, slept := slept w @ [10, 20, 40, 80]\<rparr>)"
  using assms(2,3) rate_limited_prefix [of src tk w, OF assms(1)]
  by (simp add: fetch_stock_info_def upt_5 sleep_def eval_nat_numeral)

lemma fetch_limited_always:
  assumes "\<forall>k<4. src tk (calls w + k) = RateLimited"
    and "src tk (calls w + 4) = RateLimited"
  shows "fetch_stock_info src tk 5 10 w =
    (None,
     w\<lparr>clock := clock w + 150, calls := calls w + 5, slept := slept w @ [10, 20, 40, 80]\<rparr>)"
  using assms(2) rate_limited_prefix [of src tk w, OF assms(1)]
  by (simp add: fetch_stock_info_def upt_5 sleep_def eval_nat_numeral)

lemma calls_fetch_attempts:
  "calls w \<le> calls (snd (fetch_attempts src tk m d xs w))"
proof (induction xs arbitrary: w)
  case Nil
  show ?case by simp
next
  case (Cons a xs)
  have "calls w \<le> calls (snd (fetch_attempts src tk m d xs (sleep x (w\<lparr>calls := calls w + 1\<rparr>))))" for x
    using Cons.IH [of "sleep x (w\<lparr>calls := calls w + 1\<rparr>)"] by (simp add: sleep_def)
  then show ?case
    by (simp add: Let_def split: outcome.split)
qed

lemma calls_fetch_attempts_Cons:
  "calls w < calls (snd (fetch_attempts src tk m d (a # xs) w))"
proof -
  have "calls w < calls (snd (fetch_attempts src tk m d xs (sleep x (w\<lparr>calls := calls w + 1\<rparr>))))" for x
    using calls_fetch_attempts [of "sleep x (w\<lparr>calls := calls w + 1\<rparr>)" src tk m d xs]
    by (simp add: sleep_def)
  then show ?thesis
    by (simp add: Let_def split: outcome.split)
qed

lemma calls_fetch_stock_info:
  "calls w < calls (snd (fetch_stock_info src tk 5 10 w))"
  by (simp only: fetch_stock_info_def upt_5 calls_fetch_attempts_Cons)

lemma cache_fetch_attempts:
  "cache (snd (fetch_attempts src tk m d xs w)) = cache w"
proof (induction xs arbitrary: w)
  case Nil
  show ?case by simp
next
  case (Cons a xs)
  have "cache (snd (fetch_attempts src tk m d xs (sleep x (w\<lparr>calls := calls w + 1\<rparr>)))) = cache w" for x
    using Cons.IH [of "sleep x (w\<lparr>calls := calls w + 1\<rparr>)"] by (simp add: sleep_def)
  then show ?case
    by (simp add: Let_def split: outcome.split)
qed

text \<open>
  C1. When the cache has no fresh entry for the ticker and the quote source signals
  rate-limiting (HTTP 429) on the next 4 calls: if the 5th call returns a close price
  (which the code accepts when it is not zero), the price lookup returns that price after
  exactly 5 calls, having slept 10 * 2 ^ attempt for attempts 0..3, in total at least
  10 + 20 + 40 + 80; if the 5th call is rate-limited too, the lookup returns nothing
  after exactly 5 calls.
\<close>

theorem C1_retry_backoff:
  assumes "get_cached_stock_info tk 21600 w = None"
    and "\<forall>k<4. src tk (calls w + k) = RateLimited"
  shows "(src tk (calls w + 4) = Close p \<and> p \<noteq> Fin 0 \<longrightarrow>
            fst (get_price src tk w) = Some p \<and>
            calls (snd (get_price src tk w)) = calls w + 5 \<and>
            slept (snd (get_price src tk w)) =
              slept w @ [10 * 2 ^ 0, 10 * 2 ^ 1, 10 * 2 ^ 2, 10 * 2 ^ 3] \<and>
            sum_list (slept (snd (get_price src tk w))) - sum_list (slept w)
              \<ge> 10 + 20 + 40 + 80) \<and>
         (src tk (calls w + 4) = RateLimited \<longrightarrow>
            fst (get_price src tk w) = None \<and>
            calls (snd (get_price src tk w)) = calls w + 5)"
proof (intro conjI impI)
  assume a: "src tk (calls w + 4) = Close p \<and> p \<noteq> Fin 0"
  have f: "get_price src tk w =
    (Some p, cache_stock_info tk \<lparr>currentPrice = p\<rparr>
       (w\<lparr>clock := clock w + 150, calls := calls w + 5, slept := slept w @ [10, 20, 40, 80]\<rparr>))"
    using assms(1) fetch_limited_then_close [of src tk w p, OF assms(2)] a
    by (simp add: get_price_def)
  show "fst (get_price src tk w) = Some p"
    by (simp add: f)
  show "calls (snd (get_price src tk w)) = calls w + 5"
    by (simp add: f cache_stock_info_def)
  show "slept (snd (get_price src tk w)) =
      slept w @ [10 * 2 ^ 0, 10 * 2 ^ 1, 10 * 2 ^ 2, 10 * 2 ^ 3]"
    by (simp add: f cache_stock_info_def)
  show "sum_list (slept (snd (get_price src tk w))) - sum_list (slept w) \<ge> 10 + 20 + 40 + 80"
    by (simp add: f cache_stock_info_def)
next
  assume a: "src tk (calls w + 4) = RateLimited"
  have f: "get_price src tk w =
    (None, w\<lparr>clock := clock w + 150, calls := calls w + 5, slept := slept w @ [10, 20, 40, 80]\<rparr>)"
    using assms(1) fetch_limited_always [of src tk w, OF assms(2) a]
    by (simp add: get_price_def)
  show "fst (get_price src tk w) = None"
    by (simp add: f)
  show "calls (snd (get_price src tk w)) = calls w + 5"
    by (simp add: f)
qed

theorem C1_retry_backoff_witness:
  "fst (get_price (\<lambda>t n. if n < 4 then RateLimited else Close (Fin 187))
         ''aapl'' \<lparr>clock = 1000, cache = Map.empty, calls = 0, slept = []\<rparr>) = Some (Fin 187) \<and>
   slept (snd (get_price (\<lambda>t n. if n < 4 then RateLimited else Close (Fin 187))
         ''aapl'' \<lparr>clock = 1000, cache = Map.empty, calls = 0, slept = []\<rparr>)) = [10, 20, 40, 80] \<and>
   fst (get_price (\<lambda>t n. RateLimited)
         ''aapl'' \<lparr>clock = 1000, cache = Map.empty, calls = 0, slept = []\<rparr>) = None \<and>
   calls (snd (get_price (\<lambda>t n. RateLimited)
         ''aapl'' \<lparr>clock = 1000, cache = Map.empty, calls = 0, slept = []\<rparr>)) = 5"
  using C1_retry_backoff [of "''aapl''" "\<lparr>clock = 1000, cache = Map.empty, calls = 0, slept = []\<rparr>"
      "\<lambda>t n. if n < 4 then RateLimited else Close (Fin 187)" "Fin 187"]
    C1_retry_backoff [of "''aapl''" "\<lparr>clock = 1000, cache = Map.empty, calls = 0, slept = []\<rparr>"
      "\<lambda>t n. RateLimited" NaN]
  by (simp add: get_cached_stock_info_def)

text \<open>
  C2. If the cache holds an entry for the upper-cased ticker whose age
  \<open>clock w - timestamp e\<close> is below 21600, the price lookup returns the cached price
  and leaves the world as it is (no call to the quote source). If the entry is absent or
  its age is at least 21600, the quote source is called, and when the lookup yields a
  price the cache entry of the upper-cased ticker holds that price and the clock reading
  at the time of the write.
\<close>

theorem C2_cache_ttl:
  "(cache w (upper tk) = Some e \<and> clock w - timestamp e < 21600 \<longrightarrow>
      get_price src tk w = (Some (currentPrice (info e)), w)) \<and>
   (cache w (upper tk) = None \<or>
    (cache w (upper tk) = Some e \<and> clock w - timestamp e \<ge> 21600) \<longrightarrow>
      calls w < calls (snd (get_price src tk w)) \<and>
      (\<forall>p. fst (get_price src tk w) = Some p \<longrightarrow>
         cache (snd (get_price src tk w)) (upper tk) =
           Some \<lparr>info = \<lparr>currentPrice = p\<rparr>,
                 timestamp = clock (snd (get_price src tk w))\<rparr>))"
proof (intro conjI impI allI)
  assume "cache w (upper tk) = Some e \<and> clock w - timestamp e < 21600"
  then show "get_price src tk w = (Some (currentPrice (info e)), w)"
    by (simp add: get_price_def get_cached_stock_info_def)
next
  assume a: "cache w (upper tk) = None \<or>
    (cache w (upper tk) = Some e \<and> clock w - timestamp e \<ge> 21600)"
  then have miss: "get_cached_stock_info tk 21600 w = None"
    by (auto simp: get_cached_stock_info_def)
  obtain r w' where f: "fetch_stock_info src tk 5 10 w = (r, w')"
    by (cases "fetch_stock_info src tk 5 10 w")
  have c: "calls w < calls w'"
    using calls_fetch_stock_info [of w src tk] f by simp
  show "calls w < calls (snd (get_price src tk w))"
    using miss f c by (cases r) (simp_all add: get_price_def cache_stock_info_def)
  fix p
  assume "fst (get_price src tk w) = Some p"
  then show "cache (snd (get_price src tk w)) (upper tk) =
           Some \<lparr>info = \<lparr>currentPrice = p\<rparr>,
                 timestamp = clock (snd (get_price src tk w))\<rparr>"
    using miss f by (cases r) (simp_all add: get_price_def cache_stock_info_def)
qed

theorem C2_cache_ttl_witness:
  "get_price (\<lambda>t n. Close (Fin 187)) ''aapl''
     \<lparr>clock = 30000, cache = [''AAPL'' \<mapsto> \<lparr>info = \<lparr>currentPrice = Fin 150\<rparr>, timestamp = 9000\<rparr>],
      calls = 0, slept = []\<rparr> =
   (Some (Fin 150),
     \<lparr>clock = 30000, cache = [''AAPL'' \<mapsto> \<lparr>info = \<lparr>currentPrice = Fin 150\<rparr>, timestamp = 9000\<rparr>],
      calls = 0, slept = []\<rparr>) \<and>
   0 < calls (snd (get_price (\<lambda>t n. Close (Fin 187)) ''aapl''
     \<lparr>clock = 30600, cache = [''AAPL'' \<mapsto> \<lparr>info = \<lparr>currentPrice = Fin 150\<rparr>, timestamp = 9000\<rparr>],
      calls = 0, slept = []\<rparr>)) \<and>
   cache (snd (get_price (\<lambda>t n. Close (Fin 187)) ''aapl''
     \<lparr>clock = 30600, cache = [''AAPL'' \<mapsto> \<lparr>info = \<lparr>currentPrice = Fin 150\<rparr>, timestamp = 9000\<rparr>],
      calls = 0, slept = []\<rparr>)) ''AAPL'' =
     Some \<lparr>info = \<lparr>currentPrice = Fin 187\<rparr>, timestamp = 30600\<rparr>"
proof -
  let ?e = "\<lparr>info = \<lparr>currentPrice = Fin 150\<rparr>, timestamp = 9000\<rparr>"
  let ?src = "\<lambda>(t::string) (n::nat). Close (Fin 187)"
  let ?w1 = "\<lparr>clock = 30000, cache = [''AAPL'' \<mapsto> ?e], calls = 0, slept = []\<rparr>"
  let ?w2 = "\<lparr>clock = 30600, cache = [''AAPL'' \<mapsto> ?e], calls = 0, slept = []\<rparr>"
  have u: "upper ''aapl'' = ''AAPL''"
    by (simp add: upper_def upper_char_def)
  have g: "get_price ?src ''aapl'' ?w2 =
      (Some (Fin 187), cache_stock_info ''aapl'' \<lparr>currentPrice = Fin 187\<rparr> (?w2\<lparr>calls := 1\<rparr>))"
    by (simp add: get_price_def get_cached_stock_info_def u fetch_stock_info_def upt_5)
  have a: "get_price ?src ''aapl'' ?w1 = (Some (Fin 150), ?w1)"
    using C2_cache_ttl [of ?w1 "''aapl''" ?e ?src] by (simp add: u)
  have b: "0 < calls (snd (get_price ?src ''aapl'' ?w2))"
    "cache (snd (get_price ?src ''aapl'' ?w2)) ''AAPL'' =
       Some \<lparr>info = \<lparr>currentPrice = Fin 187\<rparr>, timestamp = 30600\<rparr>"
    using C2_cache_ttl [of ?w2 "''aapl''" ?e ?src] by (simp_all add: u g cache_stock_info_def)
  from a b show ?thesis by simp
qed

section \<open>Properties of the draft engine and of trade responses\<close>

lemma draft_post_cases:
  "draft_post src nm raw w d =
     (if strip (upper raw) = [] then (error_page EmptyTicker d, w, d)
      else if strip (upper raw) \<in> set (all_picks d) then (error_page DuplicatePick d, w, d)
      else if fst (get_price src (strip (upper raw)) w) = None
        then (error_page UnknownTicker d, snd (get_price src (strip (upper raw)) w), d)
      else if nm \<notin> set (draft_order d)
        then (Inl ValueError, snd (get_price src (strip (upper raw)) w), d)
      else (Inr PickRecorded, snd (get_price src (strip (upper raw)) w),
            d\<lparr>picks := setdefault_append nm
                   \<lparr>ticker = strip (upper raw),
                    price = the (fst (get_price src (strip (upper raw)) w)),
                    time = clock (snd (get_price src (strip (upper raw)) w))\<rparr> (picks d),
              all_picks := all_picks d @ [strip (upper raw)],
              players := map (\<lambda>p. if name p = nm then p\<lparr>picked := picked p @ [strip (upper raw)]\<rparr> else p)
                           (players d),
              draft_order := remove1 nm (draft_order d)\<rparr>))"
  by (cases "get_price src (strip (upper raw)) w")
     (auto simp: draft_post_def Let_def split: option.splits)





lemma duplicate_pick_rejected:
  "strip (upper raw) \<noteq> [] \<Longrightarrow> strip (upper raw) \<in> set (all_picks d) \<Longrightarrow>
   draft_post src nm raw w d =
     ((if draft_order d = [] then Inl IndexError else Inr DuplicatePick), w, d)"
  by (simp add: draft_post_cases error_page_def)



lemma strip_upper_aapl: "strip (upper ''aapl'') = ''AAPL''"
  by (simp add: strip_def upper_def upper_char_def is_space_def)





text \<open>
  C9. A submission whose normalised ticker is already in \<^verbatim>\<open>all_picks\<close> leaves the world
  and the record as they are and answers with the duplicate-pick page
  (\<open>duplicate_pick_rejected\<close>), except that on an empty draft queue rendering that page
  raises \<^verbatim>\<open>IndexError\<close>: after the last pick of the draft, submitting AAPL again is not
  answered with DuplicatePick.
\<close>

theorem C9_duplicate_on_empty_queue:
  "strip (upper ''aapl'') \<in> set (all_picks (ex_done ''pending'')) \<and>
   draft_post src ''bob'' ''aapl'' w (ex_done ''pending'') =
     (Inl IndexError, w, ex_done ''pending'')"
proof -
  have m: "strip (upper ''aapl'') \<in> set (all_picks (ex_done ''pending''))"
    by (simp add: strip_upper_aapl ex_done_def)
  have e: "draft_order (ex_done ''pending'') = []"
    by (simp add: ex_done_def)
  have n: "strip (upper ''aapl'') \<noteq> []"
    by (simp add: strip_upper_aapl)
  show ?thesis
    using m by (simp add: duplicate_pick_rejected [OF n m] e)
qed

lemma respond_unknown_id:
  "find (\<lambda>t. trade_id t = i) (trades d) = None \<Longrightarrow> trade_respond i response d = Inr d"
  by (simp add: trade_respond_def)

lemma respond_pending_sets_status:
  "status d = Done \<Longrightarrow> find (\<lambda>t. trade_id t = i) (trades d) = Some t \<Longrightarrow>
   response \<noteq> ''accepted'' \<Longrightarrow>
   trade_respond i response d = Inr (d\<lparr>trades := set_status_first i response (trades d)\<rparr>)"
  by (simp add: trade_respond_def)

lemma find_set_status_first:
  "find (\<lambda>t. trade_id t = i) (set_status_first i r ts) =
     map_option (\<lambda>t. t\<lparr>trade_status := r\<rparr>) (find (\<lambda>t. trade_id t = i) ts)"
  by (induction ts) simp_all

lemma trades_trade_respond:
  assumes "status d = Done"
    and "find (\<lambda>t. trade_id t = i) (trades d) = Some t"
    and "trade_respond i response d = Inr d'"
  shows "trades d' = set_status_first i response (trades d)"
  using assms
  by (auto simp: trade_respond_def Let_def split: if_splits sum.splits)

text \<open>
  C4 (as the code has it). A respond call is a no-op when no trade of the record has the
  id, and when the phase is not done. Otherwise the call is decided on the id alone: the
  first trade with the id gets the response as its status in the same step, whatever its
  status was, and a response other than \<^verbatim>\<open>accepted\<close> changes nothing else.
\<close>

theorem C4_respond_reads_id_only:
  "(find (\<lambda>t. trade_id t = i) (trades d) = None \<longrightarrow> trade_respond i response d = Inr d) \<and>
   (status d \<noteq> Done \<longrightarrow> trade_respond i response d = Inr d) \<and>
   (\<forall>t. status d = Done \<and> find (\<lambda>t. trade_id t = i) (trades d) = Some t \<and>
        response \<noteq> ''accepted'' \<longrightarrow>
        trade_respond i response d =
          Inr (d\<lparr>trades := set_status_first i response (trades d)\<rparr>)) \<and>
   (\<forall>t d'. status d = Done \<and> find (\<lambda>t. trade_id t = i) (trades d) = Some t \<and>
        trade_respond i response d = Inr d' \<longrightarrow>
        find (\<lambda>t. trade_id t = i) (trades d') = Some (t\<lparr>trade_status := response\<rparr>))"
proof (intro conjI impI allI)
  assume "find (\<lambda>t. trade_id t = i) (trades d) = None"
  then show "trade_respond i response d = Inr d"
    by (rule respond_unknown_id)
next
  assume "status d \<noteq> Done"
  then show "trade_respond i response d = Inr d"
    by (simp add: trade_respond_def)
next
  fix t
  assume "status d = Done \<and> find (\<lambda>t. trade_id t = i) (trades d) = Some t \<and>
        response \<noteq> ''accepted''"
  then show "trade_respond i response d =
          Inr (d\<lparr>trades := set_status_first i response (trades d)\<rparr>)"
    by (simp add: respond_pending_sets_status)
next
  fix t d'
  assume a: "status d = Done \<and> find (\<lambda>t. trade_id t = i) (trades d) = Some t \<and>
        trade_respond i response d = Inr d'"
  then have "trades d' = set_status_first i response (trades d)"
    by (auto intro: trades_trade_respond)
  with a show "find (\<lambda>t. trade_id t = i) (trades d') = Some (t\<lparr>trade_status := response\<rparr>)"
    by (simp add: find_set_status_first)
qed

theorem C4_respond_reads_id_only_witness:
  "trade_respond 7 ''accepted'' (ex_done ''pending'') = Inr (ex_done ''pending'') \<and>
   trade_respond 1 ''rejected'' (ex_done ''pending'') = Inr (ex_done ''rejected'')"
proof -
  have n: "find (\<lambda>t. trade_id t = 7) (trades (ex_done ''pending'')) = None"
    by (simp add: ex_done_def ex_trade_def)
  have a: "trade_respond 7 ''accepted'' (ex_done ''pending'') = Inr (ex_done ''pending'')"
    using C4_respond_reads_id_only [of 7 "ex_done ''pending''" "''accepted''", THEN conjunct1] n
    by simp
  have h: "status (ex_done ''pending'') = Done \<and>
      find (\<lambda>t. trade_id t = 1) (trades (ex_done ''pending'')) = Some (ex_trade ''pending'') \<and>
      ''rejected'' \<noteq> ''accepted''"
    by (simp add: ex_done_def ex_trade_def)
  have b: "trade_respond 1 ''rejected'' (ex_done ''pending'') =
      Inr (ex_done ''pending''\<lparr>trades := set_status_first 1 ''rejected'' (trades (ex_done ''pending''))\<rparr>)"
    using C4_respond_reads_id_only [of 1 "ex_done ''pending''" "''rejected''",
        THEN conjunct2, THEN conjunct2, THEN conjunct1, rule_format, OF h] .
  have c: "ex_done ''pending''\<lparr>trades := set_status_first 1 ''rejected'' (trades (ex_done ''pending''))\<rparr>
      = ex_done ''rejected''"
    by (simp add: ex_done_def ex_trade_def)
  from a b c show ?thesis by simp
qed

text \<open>
  C4 (counterexample). A trade that has left pending is not closed to a later respond
  call: an accepted trade answered with \<^verbatim>\<open>rejected\<close> becomes rejected while the picks stay
  swapped, a rejected trade answered with \<^verbatim>\<open>accepted\<close> becomes accepted and its picks are
  swapped, and accepting an accepted trade again raises \<^verbatim>\<open>StopIteration\<close>.
\<close>

theorem C4_respond_after_terminal_status_counterexample:
  "trade_respond 1 ''rejected'' (ex_swapped ''accepted'') = Inr (ex_swapped ''rejected'') \<and>
   trade_respond 1 ''accepted'' (ex_done ''rejected'') = Inr (ex_swapped ''accepted'') \<and>
   trade_respond 1 ''accepted'' (ex_swapped ''accepted'') = Inl StopIteration"
  by (simp add: trade_respond_def ex_swapped_def ex_done_def ex_trade_def swap_picks_def
      list_remove_def list_append_def)

section \<open>Properties of the game summary\<close>

lemma game_status:
  "status (record_after (game rt src hv w d)) = status (fst (check_expiry w d))"
  by (simp add: game_def split: prod.splits)

text \<open>
  C5 (as the code has it). A read through the game summary sets the phase to finished
  exactly when the record has an end date and the clock has passed it; the phase itself
  is not read. With no end date, or an end date not yet passed, the phase stays as it
  is. The blank record of the setup phase has no end date, so a read leaves it in setup.
\<close>

theorem C5_finished_when_end_date_passed:
  "(end_date d = None \<longrightarrow> status (record_after (game rt src hv w d)) = status d) \<and>
   (\<forall>e. end_date d = Some e \<and> e < clock w \<longrightarrow>
      status (record_after (game rt src hv w d)) = Finished) \<and>
   (\<forall>e. end_date d = Some e \<and> clock w \<le> e \<longrightarrow>
      status (record_after (game rt src hv w d)) = status d) \<and>
   end_date blank_record = None \<and> status blank_record = Setup"
  by (auto simp: game_status check_expiry_def blank_record_def)

theorem C5_finished_when_end_date_passed_witness:
  "status (record_after (game ex_runtime (\<lambda>t n. Empty) (\<lambda>t s e. None) ex_world blank_record)) = Setup \<and>
   status (record_after (game ex_runtime (\<lambda>t n. Empty) (\<lambda>t s e. None) ex_world ex_draft)) = Draft \<and>
   status (record_after (game ex_runtime (\<lambda>t n. Empty) (\<lambda>t s e. None)
      (ex_world\<lparr>clock := 7776001\<rparr>) (ex_done ''pending''))) = Finished"
proof -
  let ?src = "\<lambda>(t::string) (n::nat). Empty"
  let ?hv = "\<lambda>(t::string) (s::real) (e::real). None :: fl option"
  have a: "status (record_after (game ex_runtime ?src ?hv ex_world blank_record)) = Setup"
    using C5_finished_when_end_date_passed [of blank_record ex_runtime ?src ?hv ex_world]
    by simp
  have b: "status (record_after (game ex_runtime ?src ?hv ex_world ex_draft)) = Draft"
    using C5_finished_when_end_date_passed [of ex_draft ex_runtime ?src ?hv ex_world]
    by (simp add: ex_draft_def ex_world_def)
  have c: "status (record_after (game ex_runtime ?src ?hv (ex_world\<lparr>clock := 7776001\<rparr>) (ex_done ''pending''))) = Finished"
    using C5_finished_when_end_date_passed [of "ex_done ''pending''" ex_runtime ?src ?hv "ex_world\<lparr>clock := 7776001\<rparr>"]
    by (simp add: ex_done_def ex_world_def)
  from a b c show ?thesis by simp
qed

text \<open>
  C5 (counterexample). A record in the draft phase, read after its end date,
  becomes finished.
\<close>

theorem C5_finished_from_draft_counterexample:
  "status ex_draft = Draft \<and>
   status (record_after (game ex_runtime (\<lambda>t n. Empty) (\<lambda>t s e. None)
      (ex_world\<lparr>clock := 7776001\<rparr>) ex_draft)) = Finished"
  by (simp add: game_status check_expiry_def ex_draft_def ex_world_def)

lemma fl_less_irrefl: "\<not> fl_less a a"
  by (cases a) simp_all

lemma fl_less_trans: "fl_less a b \<Longrightarrow> fl_less b c \<Longrightarrow> fl_less a c"
  by (cases a; cases b; cases c) simp_all

lemma fl_less_asym: "fl_less a b \<Longrightarrow> \<not> fl_less b a"
  by (cases a; cases b) simp_all

lemma vol_loop_le_acc:
  "fst (vol_loop rt hv items s e w acc) = fst acc \<or> fl_less (fst (vol_loop rt hv items s e w acc)) (fst acc)"
proof (induction items arbitrary: acc)
  case Nil
  show ?case by simp
next
  case (Cons it items)
  obtain pn pks where it: "it = (pn, pks)" by (cases it)
  let ?v = "calculate_volatility rt hv pks s e w"
  show ?case
  proof (cases "fl_less ?v (fst acc)")
    case True
    with Cons.IH [of "(?v, Some pn)"] show ?thesis
      by (auto simp: it dest: fl_less_trans)
  next
    case False
    with Cons.IH [of acc] show ?thesis
      by (simp add: it)
  qed
qed

lemma vol_loop_lower_bound:
  "(pn, pks) \<in> set items \<Longrightarrow>
   \<not> fl_less (calculate_volatility rt hv pks s e w) (fst (vol_loop rt hv items s e w acc))"
proof (induction items arbitrary: acc)
  case Nil
  then show ?case by simp
next
  case (Cons it items)
  obtain qn qks where it: "it = (qn, qks)" by (cases it)
  let ?v = "calculate_volatility rt hv qks s e w"
  show ?case
  proof (cases "(pn, pks) \<in> set items")
    case True
    then show ?thesis
      using Cons.IH [of "(?v, Some qn)"] Cons.IH [of acc] by (simp add: it Let_def)
  next
    case False
    with Cons.prems it have eq: "qn = pn" "qks = pks" by auto
    show ?thesis
    proof (cases "fl_less ?v (fst acc)")
      case True
      then show ?thesis
        using vol_loop_le_acc [of rt hv items s e w "(?v, Some qn)"]
        by (auto simp: it eq fl_less_irrefl dest: fl_less_asym)
    next
      case False
      then show ?thesis
        using vol_loop_le_acc [of rt hv items s e w acc]
        by (auto simp: it eq dest: fl_less_trans)
    qed
  qed
qed

lemma vol_loop_winner:
  "vol_loop rt hv items s e w acc = acc \<or>
   (\<exists>pn pks. (pn, pks) \<in> set items \<and>
      vol_loop rt hv items s e w acc = (calculate_volatility rt hv pks s e w, Some pn) \<and>
      fl_less (calculate_volatility rt hv pks s e w) (fst acc))"
proof (induction items arbitrary: acc)
  case Nil
  show ?case by simp
next
  case (Cons it items)
  obtain qn qks where it: "it = (qn, qks)" by (cases it)
  let ?v = "calculate_volatility rt hv qks s e w"
  show ?case
  proof (cases "fl_less ?v (fst acc)")
    case True
    from Cons.IH [of "(?v, Some qn)"] show ?thesis
    proof
      assume "vol_loop rt hv items s e w (?v, Some qn) = (?v, Some qn)"
      with True show ?thesis by (auto simp: it)
    next
      assume "\<exists>pn pks. (pn, pks) \<in> set items \<and>
        vol_loop rt hv items s e w (?v, Some qn) = (calculate_volatility rt hv pks s e w, Some pn) \<and>
        fl_less (calculate_volatility rt hv pks s e w) (fst (?v, Some qn))"
      then obtain pn pks where p: "(pn, pks) \<in> set items"
        "vol_loop rt hv items s e w (?v, Some qn) = (calculate_volatility rt hv pks s e w, Some pn)"
        "fl_less (calculate_volatility rt hv pks s e w) ?v"
        by auto
      from p(3) True have "fl_less (calculate_volatility rt hv pks s e w) (fst acc)"
        by (rule fl_less_trans)
      with p True show ?thesis by (auto simp: it)
    qed
  next
    case False
    with Cons.IH [of acc] show ?thesis
      by (auto simp: it)
  qed
qed

lemma vol_loop_all_infinite:
  "(\<And>pn pks. (pn, pks) \<in> set items \<Longrightarrow> \<not> fl_less (calculate_volatility rt hv pks s e w) PosInf) \<Longrightarrow>
   vol_loop rt hv items s e w (PosInf, None) = (PosInf, None)"
proof (induction items)
  case Nil
  show ?case by simp
next
  case (Cons it items)
  obtain qn qks where it: "it = (qn, qks)" by (cases it)
  have "\<not> fl_less (calculate_volatility rt hv qks s e w) PosInf"
    using Cons.prems [of qn qks] by (simp add: it)
  moreover have "vol_loop rt hv items s e w (PosInf, None) = (PosInf, None)"
  proof (rule Cons.IH)
    fix pn pks
    assume "(pn, pks) \<in> set items"
    then show "\<not> fl_less (calculate_volatility rt hv pks s e w) PosInf"
      using Cons.prems [of pn pks] by simp
  qed
  ultimately show ?case by (simp add: it)
qed

lemma resolve_lowest_volatility:
  "mtype m = ''lowest_volatility'' \<Longrightarrow>
   resolve_milestone rt src hv d m w =
     (m\<lparr>winner := snd (vol_loop rt hv (picks d) (start_date d) (end_date d) w (PosInf, None)),
        mvalue :=
          (case snd (vol_loop rt hv (picks d) (start_date d) (end_date d) w (PosInf, None)) of
             None \<Rightarrow> fl_round2 (round_double rt)
               (fst (vol_loop rt hv (picks d) (start_date d) (end_date d) w (PosInf, None)))
           | Some pn \<Rightarrow> np_round2 rt
               (fst (vol_loop rt hv (picks d) (start_date d) (end_date d) w (PosInf, None))))\<rparr>,
      w)"
  by (cases "vol_loop rt hv (picks d) (start_date d) (end_date d) w (PosInf, None)")
    (simp add: resolve_milestone_def split: option.splits)

lemma map_filter_yielded:
  "List.map_filter f xs = map the (filter (\<lambda>v. v \<noteq> None) (map f xs))"
  by (induction xs) (auto simp: List.map_filter_def)

lemma calculate_volatility_spec:
  "calculate_volatility rt hv pks (start_date d) (end_date d) w = spec_volatility rt hv d w pks"
  by (simp add: calculate_volatility_def spec_volatility_def yielded_volatilities_def
      map_filter_yielded split: option.splits)

lemma foldl_fl_add_exact:
  "foldl (fl_add Fin) (Fin a) (map Fin xs) = Fin (a + sum_list xs)"
  by (induction xs arbitrary: a) (simp_all add: add.assoc)

text \<open>With exact arithmetic and a sum in sequence, the volatility of a set of picks of which
  some yielded a series is the arithmetic mean of the finite values yielded.\<close>

lemma spec_volatility_exact_mean:
  assumes "round_double rt = Fin" and "np_sum rt = foldl (fl_add Fin) (Fin 0)"
    and "start_date d = Some s" and "end_date d = Some e"
    and "yielded_volatilities hv s (min (clock w) e) pks = map Fin xs" and "xs \<noteq> []"
  shows "spec_volatility rt hv d w pks = Fin (sum_list xs / real (length xs))"
  using assms by (simp add: spec_volatility_def foldl_fl_add_exact)

text \<open>
  C10. When the \<^verbatim>\<open>lowest_volatility\<close> milestone is resolved, the volatility the loop
  compares is, for every set of picks, the average over the picks that yielded a series
  and infinity if none did (\<^const>\<open>spec_volatility\<close>). A winner is a player of
  \<^verbatim>\<open>data['picks']\<close> whose volatility is below infinity, is the value recorded (rounded),
  and is not undercut by any player's volatility. If no player's volatility is below
  infinity (each is infinite, no pick having yielded a series, or not a number), the
  winner stays \<^verbatim>\<open>None\<close> and the value recorded is infinity, so the milestone is still
  unresolved at the next read; if some player's volatility is below infinity there is a
  winner.
\<close>

theorem C10_lowest_volatility_winner:
  assumes "mtype m = ''lowest_volatility''"
  shows "(\<forall>pks. calculate_volatility rt hv pks (start_date d) (end_date d) w =
            spec_volatility rt hv d w pks) \<and>
         (\<forall>pn. winner (fst (resolve_milestone rt src hv d m w)) = Some pn \<longrightarrow>
            (\<exists>pks. (pn, pks) \<in> set (picks d) \<and>
               fl_less (spec_volatility rt hv d w pks) PosInf \<and>
               mvalue (fst (resolve_milestone rt src hv d m w)) =
                 np_round2 rt (spec_volatility rt hv d w pks) \<and>
               (\<forall>(qn, qks) \<in> set (picks d).
                  \<not> fl_less (spec_volatility rt hv d w qks) (spec_volatility rt hv d w pks)))) \<and>
         ((\<forall>(qn, qks) \<in> set (picks d). \<not> fl_less (spec_volatility rt hv d w qks) PosInf) \<longrightarrow>
            winner (fst (resolve_milestone rt src hv d m w)) = None \<and>
            no_winner (winner (fst (resolve_milestone rt src hv d m w))) \<and>
            mvalue (fst (resolve_milestone rt src hv d m w)) = PosInf) \<and>
         ((\<exists>(qn, qks) \<in> set (picks d). fl_less (spec_volatility rt hv d w qks) PosInf) \<longrightarrow>
            winner (fst (resolve_milestone rt src hv d m w)) \<noteq> None)"
proof -
  let ?s = "start_date d" and ?e = "end_date d"
  let ?r = "vol_loop rt hv (picks d) ?s ?e w (PosInf, None)"
  let ?m' = "fst (resolve_milestone rt src hv d m w)"
  have cv: "calculate_volatility rt hv pks ?s ?e w = spec_volatility rt hv d w pks" for pks
    by (rule calculate_volatility_spec)
  have win: "winner ?m' = snd ?r"
    and val: "mvalue ?m' =
      (case snd ?r of None \<Rightarrow> fl_round2 (round_double rt) (fst ?r)
       | Some pn \<Rightarrow> np_round2 rt (fst ?r))"
    by (simp_all add: resolve_lowest_volatility [OF assms])
  have lb: "\<not> fl_less (spec_volatility rt hv d w qks) (fst ?r)"
    if "(qn, qks) \<in> set (picks d)" for qn qks
    using vol_loop_lower_bound [OF that, of rt hv ?s ?e w "(PosInf, None)"] by (simp add: cv)
  have one: "\<exists>pks. (pn, pks) \<in> set (picks d) \<and>
               fl_less (spec_volatility rt hv d w pks) PosInf \<and>
               mvalue ?m' = np_round2 rt (spec_volatility rt hv d w pks) \<and>
               (\<forall>(qn, qks) \<in> set (picks d).
                  \<not> fl_less (spec_volatility rt hv d w qks) (spec_volatility rt hv d w pks))"
    if w1: "winner ?m' = Some pn" for pn
  proof -
    from w1 have s1: "snd ?r = Some pn" by (simp add: win)
    from vol_loop_winner [of rt hv "picks d" ?s ?e w "(PosInf, None)"] s1
    obtain p pks where p: "(p, pks) \<in> set (picks d)"
      "?r = (spec_volatility rt hv d w pks, Some p)"
      "fl_less (spec_volatility rt hv d w pks) PosInf"
      by (auto simp: cv)
    from p(2) s1 have "p = pn" by simp
    moreover have "\<forall>(qn, qks) \<in> set (picks d).
        \<not> fl_less (spec_volatility rt hv d w qks) (spec_volatility rt hv d w pks)"
      using lb p(2) by auto
    moreover have "mvalue ?m' = np_round2 rt (spec_volatility rt hv d w pks)"
      using p(2) by (simp add: val)
    ultimately show ?thesis using p by auto
  qed
  have two: "winner ?m' = None \<and> no_winner (winner ?m') \<and> mvalue ?m' = PosInf"
    if "\<forall>(qn, qks) \<in> set (picks d). \<not> fl_less (spec_volatility rt hv d w qks) PosInf"
  proof -
    have "?r = (PosInf, None)"
      using that by (intro vol_loop_all_infinite) (auto simp: cv)
    then show ?thesis by (simp add: win val no_winner_def)
  qed
  have three: "winner ?m' \<noteq> None"
    if "\<exists>(qn, qks) \<in> set (picks d). fl_less (spec_volatility rt hv d w qks) PosInf"
  proof
    assume "winner ?m' = None"
    then have n: "snd ?r = None" by (simp add: win)
    from that obtain qn qks where q: "(qn, qks) \<in> set (picks d)"
      "fl_less (spec_volatility rt hv d w qks) PosInf"
      by auto
    from vol_loop_winner [of rt hv "picks d" ?s ?e w "(PosInf, None)"] n
    have "?r = (PosInf, None)" by auto
    with lb [OF q(1)] q(2) show False by simp
  qed
  from cv one two three show ?thesis by blast
qed

lemma ex_vol_ann:
  "spec_volatility ex_runtime ex_hv ex_vol_game ex_world
     [\<lparr>ticker = ''AAPL'', price = Fin 100, time = 10\<rparr>,
      \<lparr>ticker = ''TSLA'', price = Fin 100, time = 40\<rparr>] = Fin (5 / 16)"
  by (simp add: spec_volatility_def yielded_volatilities_def ex_vol_game_def ex_hv_def
      ex_runtime_def)

lemma ex_vol_bob:
  "spec_volatility ex_runtime ex_hv ex_vol_game ex_world
     [\<lparr>ticker = ''MSFT'', price = Fin 50, time = 20\<rparr>,
      \<lparr>ticker = ''NFLX'', price = Fin 100, time = 30\<rparr>] = Fin (1 / 4)"
  by (simp add: spec_volatility_def yielded_volatilities_def ex_vol_game_def ex_hv_def
      ex_runtime_def)

lemma ex_vol_no_history:
  "spec_volatility rt (\<lambda>t s e. None) d w pks = PosInf"
  by (simp add: spec_volatility_def yielded_volatilities_def split: option.splits)

lemma py_round2_quarter: "py_round2 (1 / 4) = 1 / 4"
  by (simp add: py_round2_def Let_def)

text \<open>
  On the example game ann's volatility is the mean 0.3125 of 0.125 and 0.5, bob's is the
  0.25 of his one pick that yields a series, and bob wins with the value 0.25; with a
  history source that yields no series the winner stays \<^verbatim>\<open>None\<close>.
\<close>

theorem C10_lowest_volatility_winner_witness:
  "winner (fst (resolve_milestone ex_runtime (\<lambda>t n. Empty) ex_hv ex_vol_game ex_milestone
     ex_world)) = Some ''bob'' \<and>
   mvalue (fst (resolve_milestone ex_runtime (\<lambda>t n. Empty) ex_hv ex_vol_game ex_milestone
     ex_world)) = Fin (1 / 4) \<and>
   calculate_volatility ex_runtime ex_hv
     [\<lparr>ticker = ''AAPL'', price = Fin 100, time = 10\<rparr>,
      \<lparr>ticker = ''TSLA'', price = Fin 100, time = 40\<rparr>]
     (start_date ex_vol_game) (end_date ex_vol_game) ex_world = Fin (5 / 16) \<and>
   winner (fst (resolve_milestone ex_runtime (\<lambda>t n. Empty) (\<lambda>t s e. None) ex_vol_game
     ex_milestone ex_world)) = None"
proof -
  let ?m' = "fst (resolve_milestone ex_runtime (\<lambda>t n. Empty) ex_hv ex_vol_game ex_milestone
     ex_world)"
  let ?a = "[\<lparr>ticker = ''AAPL'', price = Fin 100, time = 10\<rparr>,
             \<lparr>ticker = ''TSLA'', price = Fin 100, time = 40\<rparr>]"
  let ?b = "[\<lparr>ticker = ''MSFT'', price = Fin 50, time = 20\<rparr>,
             \<lparr>ticker = ''NFLX'', price = Fin 100, time = 30\<rparr>]"
  have t: "mtype ex_milestone = ''lowest_volatility''"
    by (simp add: ex_milestone_def)
  have p: "picks ex_vol_game = [(''ann'', ?a), (''bob'', ?b)]"
    by (simp add: ex_vol_game_def)
  note c10 = C10_lowest_volatility_winner [OF t, of ex_runtime ex_hv ex_vol_game ex_world
      "\<lambda>t n. Empty"]
  from c10 have some: "winner ?m' \<noteq> None"
    by (simp add: p ex_vol_ann ex_vol_bob)
  then obtain pn where pn: "winner ?m' = Some pn" by auto
  with c10 obtain pks where pks: "(pn, pks) \<in> set (picks ex_vol_game)"
      "mvalue ?m' = np_round2 ex_runtime (spec_volatility ex_runtime ex_hv ex_vol_game ex_world pks)"
      "\<forall>(qn, qks) \<in> set (picks ex_vol_game).
         \<not> fl_less (spec_volatility ex_runtime ex_hv ex_vol_game ex_world qks)
              (spec_volatility ex_runtime ex_hv ex_vol_game ex_world pks)"
    by blast
  from pks(1) have "(pn = ''ann'' \<and> pks = ?a) \<or> (pn = ''bob'' \<and> pks = ?b)"
    by (simp add: p)
  then have bob: "pn = ''bob'' \<and> pks = ?b"
  proof
    assume a: "pn = ''ann'' \<and> pks = ?a"
    with pks(3) show ?thesis by (simp add: p ex_vol_ann ex_vol_bob)
  qed simp
  have w1: "winner ?m' = Some ''bob''"
    using pn bob by simp
  have r: "np_round2 ex_runtime (Fin (1 / 4)) = Fin (1 / 4)"
    by (simp add: ex_runtime_def py_round2_quarter)
  have v1: "mvalue ?m' = Fin (1 / 4)"
    using pks(2) bob by (simp add: ex_vol_bob r)
  have a1: "calculate_volatility ex_runtime ex_hv ?a (start_date ex_vol_game)
      (end_date ex_vol_game) ex_world = Fin (5 / 16)"
    using c10 by (simp add: ex_vol_ann)
  have n1: "winner (fst (resolve_milestone ex_runtime (\<lambda>t n. Empty) (\<lambda>t s e. None) ex_vol_game
      ex_milestone ex_world)) = None"
    using C10_lowest_volatility_winner [OF t, of ex_runtime "\<lambda>t s e. None" ex_vol_game ex_world
        "\<lambda>t n. Empty"]
    by (simp add: ex_vol_no_history)
  from w1 v1 a1 n1 show ?thesis by simp
qed

section \<open>Properties of the scoring engine\<close>























text \<open>No order of rows is descending once one of two or more rows has NaN points.\<close>

lemma nan_row_never_descending:
  assumes "e \<in> set rows" and "points e = NaN" and "2 \<le> length rows"
  shows "\<not> sorted_wrt (\<lambda>a b. fl_le (points b) (points a)) rows"
proof
  assume s: "sorted_wrt (\<lambda>a b. fl_le (points b) (points a)) rows"
  from assms(1) obtain i where i: "i < length rows" "rows ! i = e"
    by (auto simp: in_set_conv_nth)
  from assms(3) i(1) obtain j where j: "j < length rows" "j \<noteq> i"
    by (cases "i = 0") (auto intro: that [of 0] that [of 1])
  show False
  proof (cases "i < j")
    case True
    with s i(1) j have "fl_le (points (rows ! j)) (points (rows ! i))"
      by (simp add: sorted_wrt_iff_nth_less)
    with i assms(2) show False by (simp add: fl_le_def)
  next
    case False
    with j have "j < i" by simp
    with s i(1) j have "fl_le (points (rows ! i)) (points (rows ! j))"
      by (simp add: sorted_wrt_iff_nth_less)
    with i assms(2) show False by (simp add: fl_le_def)
  qed
qed












section \<open>Properties of the invariants\<close>

text \<open>
  The record of a new game satisfies the invariants, and every call of the POST branch of
  \<^verbatim>\<open>draft\<close> keeps them, whatever it is given. That no ticker comes to be held twice rests
  on every ticker held being in \<^verbatim>\<open>data['all_picks']\<close>, which the draft keeps as well.
\<close>

lemma keys_setdefault_append:
  "map fst (setdefault_append k x ps) =
     (if k \<in> set (map fst ps) then map fst ps else map fst ps @ [k])"
  by (induction ps) (force simp: image_iff)+

lemma map_of_setdefault_append:
  "map_of (setdefault_append k x ps) =
     (map_of ps)(k \<mapsto> (case map_of ps k of None \<Rightarrow> [] | Some l \<Rightarrow> l) @ [x])"
  by (induction ps) (auto simp: fun_eq_iff)

lemma distinct_setdefault_append:
  "distinct (map fst ps) \<Longrightarrow> distinct (map fst (setdefault_append k x ps))"
  by (simp add: keys_setdefault_append)

lemma in_setdefault_append:
  assumes "distinct (map fst ps)"
  shows "(pn, l) \<in> set (setdefault_append k x ps) \<longleftrightarrow>
     (pn = k \<and> l = (case map_of ps k of None \<Rightarrow> [] | Some l0 \<Rightarrow> l0) @ [x]) \<or>
     (pn \<noteq> k \<and> (pn, l) \<in> set ps)"
proof -
  have "(pn, l) \<in> set (setdefault_append k x ps) \<longleftrightarrow>
      map_of (setdefault_append k x ps) pn = Some l"
    using distinct_setdefault_append [OF assms, of k x] by simp
  also have "\<dots> \<longleftrightarrow> (pn = k \<and> l = (case map_of ps k of None \<Rightarrow> [] | Some l0 \<Rightarrow> l0) @ [x]) \<or>
     (pn \<noteq> k \<and> map_of ps pn = Some l)"
    by (auto simp: map_of_setdefault_append)
  also have "\<dots> \<longleftrightarrow> (pn = k \<and> l = (case map_of ps k of None \<Rightarrow> [] | Some l0 \<Rightarrow> l0) @ [x]) \<or>
     (pn \<noteq> k \<and> (pn, l) \<in> set ps)"
    using assms by simp
  finally show ?thesis .
qed

lemma draft_keeps_picked_consistent:
  assumes "picked_consistent d"
  shows "picked_consistent (snd (snd (draft_post src nm raw w d)))"
proof -
  let ?tk = "strip (upper raw)"
  let ?g = "get_price src ?tk w"
  let ?pk = "\<lparr>ticker = ?tk, price = the (fst ?g), time = clock (snd ?g)\<rparr>"
  let ?h = "\<lambda>p. if name p = nm then p\<lparr>picked := picked p @ [?tk]\<rparr> else p"
  let ?d' = "d\<lparr>picks := setdefault_append nm ?pk (picks d),
               all_picks := all_picks d @ [?tk],
               players := map ?h (players d),
               draft_order := remove1 nm (draft_order d)\<rparr>"
  have cases: "snd (snd (draft_post src nm raw w d)) = d \<or>
      snd (snd (draft_post src nm raw w d)) = ?d'"
    by (simp add: draft_post_cases)
  have "picked_consistent ?d'"
    unfolding picked_consistent_def
  proof
    fix p'
    assume "p' \<in> set (players ?d')"
    then obtain p where p: "p \<in> set (players d)" "p' = ?h p"
      by auto
    have old: "picked p = (case map_of (picks d) (name p) of None \<Rightarrow> [] | Some l \<Rightarrow> map ticker l)"
      using assms p(1) by (simp add: picked_consistent_def)
    show "picked p' =
        (case map_of (picks ?d') (name p') of None \<Rightarrow> [] | Some l \<Rightarrow> map ticker l)"
      using old p(2)
      by (cases "name p = nm") (auto simp: map_of_setdefault_append split: option.splits)
  qed
  with cases assms show ?thesis by auto
qed

lemma draft_keeps_tickers_unique:
  assumes u: "tickers_unique d" and r: "picks_registered d"
  shows "tickers_unique (snd (snd (draft_post src nm raw w d))) \<and>
         picks_registered (snd (snd (draft_post src nm raw w d)))"
proof -
  let ?tk = "strip (upper raw)"
  let ?g = "get_price src ?tk w"
  let ?pk = "\<lparr>ticker = ?tk, price = the (fst ?g), time = clock (snd ?g)\<rparr>"
  let ?h = "\<lambda>p. if name p = nm then p\<lparr>picked := picked p @ [?tk]\<rparr> else p"
  let ?ps' = "setdefault_append nm ?pk (picks d)"
  let ?d' = "d\<lparr>picks := ?ps',
               all_picks := all_picks d @ [?tk],
               players := map ?h (players d),
               draft_order := remove1 nm (draft_order d)\<rparr>"
  define old where "old = (case map_of (picks d) nm of None \<Rightarrow> [] | Some l0 \<Rightarrow> l0)"
  have cases: "snd (snd (draft_post src nm raw w d)) = d \<or>
      (?tk \<notin> set (all_picks d) \<and> snd (snd (draft_post src nm raw w d)) = ?d')"
    by (simp add: draft_post_cases)
  have goal: "tickers_unique ?d' \<and> picks_registered ?d'" if fresh: "?tk \<notin> set (all_picks d)"
  proof -
    have dk: "distinct (map fst (picks d))"
      using u by (simp add: tickers_unique_def)
    have dl: "distinct (map ticker l)" if "(pn, l) \<in> set (picks d)" for pn l
      using u that by (auto simp: tickers_unique_def)
    have dj: "ticker ` set l \<inter> ticker ` set m = {}"
      if "(pn, l) \<in> set (picks d)" "(qn, m) \<in> set (picks d)" "pn \<noteq> qn" for pn l qn m
      using u that by (fastforce simp: tickers_unique_def)
    have reg: "ticker ` set l \<subseteq> set (all_picks d)" if "(pn, l) \<in> set (picks d)" for pn l
      using r that by (fastforce simp: picks_registered_def)
    have nt: "?tk \<notin> ticker ` set l" if "(pn, l) \<in> set (picks d)" for pn l
      using reg [OF that] fresh by auto
    have oldin: "old = [] \<or> (nm, old) \<in> set (picks d)"
      by (auto simp: old_def split: option.splits dest: map_of_SomeD)
    have od: "distinct (map ticker old)"
      using oldin
    proof
      assume "old = []"
      then show ?thesis by simp
    next
      assume "(nm, old) \<in> set (picks d)"
      then show ?thesis by (rule dl)
    qed
    have ont: "?tk \<notin> ticker ` set old"
      using oldin
    proof
      assume "old = []"
      then show ?thesis by simp
    next
      assume "(nm, old) \<in> set (picks d)"
      then show ?thesis by (rule nt)
    qed
    have oreg: "ticker ` set old \<subseteq> set (all_picks d)"
      using oldin
    proof
      assume "old = []"
      then show ?thesis by simp
    next
      assume "(nm, old) \<in> set (picks d)"
      then show ?thesis by (rule reg)
    qed
    have odj: "ticker ` set old \<inter> ticker ` set m = {}"
      if q: "(qn, m) \<in> set (picks d)" "qn \<noteq> nm" for qn m
      using oldin
    proof
      assume "old = []"
      then show ?thesis by simp
    next
      assume a: "(nm, old) \<in> set (picks d)"
      from q(2) have "nm \<noteq> qn" by simp
      with a q(1) show ?thesis by (rule dj)
    qed
    have mem: "(pn, l) \<in> set ?ps' \<longleftrightarrow>
        (pn = nm \<and> l = old @ [?pk]) \<or> (pn \<noteq> nm \<and> (pn, l) \<in> set (picks d))" for pn l
      unfolding old_def using dk by (rule in_setdefault_append)
    have a: "distinct (map fst ?ps')"
      using dk by (rule distinct_setdefault_append)
    have b: "distinct (map ticker l)" if "(pn, l) \<in> set ?ps'" for pn l
      using that od ont dl unfolding mem by auto
    have c: "ticker ` set l \<inter> ticker ` set m = {}"
      if "(pn, l) \<in> set ?ps'" "(qn, m) \<in> set ?ps'" "pn \<noteq> qn" for pn l qn m
    proof -
      from that(1) consider "pn = nm" "l = old @ [?pk]" | "pn \<noteq> nm" "(pn, l) \<in> set (picks d)"
        unfolding mem by auto
      then show ?thesis
      proof cases
        case 1
        with that(2,3) have m: "(qn, m) \<in> set (picks d)" "qn \<noteq> nm"
          unfolding mem by auto
        from odj [OF m] nt [OF m(1)] 1(2) show ?thesis by auto
      next
        case 2
        from that(2) consider "qn = nm" "m = old @ [?pk]" | "qn \<noteq> nm" "(qn, m) \<in> set (picks d)"
          unfolding mem by auto
        then show ?thesis
        proof cases
          case 1
          from odj [OF 2(2) 2(1)] nt [OF 2(2)] 1(2) show ?thesis by auto
        next
          case q: 2
          from dj [OF 2(2) q(2) that(3)] show ?thesis .
        qed
      qed
    qed
    have e: "ticker ` set l \<subseteq> set (all_picks d @ [?tk])" if "(pn, l) \<in> set ?ps'" for pn l
    proof -
      from that consider "pn = nm" "l = old @ [?pk]" | "pn \<noteq> nm" "(pn, l) \<in> set (picks d)"
        unfolding mem by auto
      then show ?thesis
      proof cases
        case 1
        have "ticker ` set l = ticker ` set old \<union> {?tk}"
          unfolding 1(2) by simp
        with oreg show ?thesis by auto
      next
        case 2
        from reg [OF 2(2)] show ?thesis by auto
      qed
    qed
    have b': "\<forall>(pn, l) \<in> set ?ps'. distinct (map ticker l)"
      using b by blast
    have c': "\<forall>(pn, l) \<in> set ?ps'. \<forall>(qn, m) \<in> set ?ps'.
        pn \<noteq> qn \<longrightarrow> ticker ` set l \<inter> ticker ` set m = {}"
    proof (intro ballI, clarify)
      fix pn l qn m
      assume "(pn, l) \<in> set ?ps'" "(qn, m) \<in> set ?ps'" "pn \<noteq> qn"
      then show "ticker ` set l \<inter> ticker ` set m = {}" by (rule c)
    qed
    have "tickers_unique ?d'"
      unfolding tickers_unique_def using a b' c' by simp
    moreover have "picks_registered ?d'"
      unfolding picks_registered_def using e by auto
    ultimately show ?thesis ..
  qed
  from cases show ?thesis
  proof
    assume "snd (snd (draft_post src nm raw w d)) = d"
    with u r show ?thesis by simp
  next
    assume "?tk \<notin> set (all_picks d) \<and> snd (snd (draft_post src nm raw w d)) = ?d'"
    with goal show ?thesis by simp
  qed
qed

lemma blank_record_invariants:
  "picked_consistent blank_record \<and> tickers_unique blank_record \<and> picks_registered blank_record"
  by (simp add: picked_consistent_def tickers_unique_def picks_registered_def blank_record_def)

text \<open>
  No draft price is zero: a fetched price is not zero (\<^verbatim>\<open>if current:\<close>), so a cache that
  holds no zero price gives none and stays so, and the draft records only prices that the
  lookup gave.
\<close>

lemma fetch_attempts_nonzero:
  "fetch_attempts src tk m i as w = (Some x, w') \<Longrightarrow> currentPrice x \<noteq> Fin 0"
  by (induction as arbitrary: w) (auto simp: Let_def split: outcome.splits if_splits)

lemma fetch_attempts_cache:
  "cache (snd (fetch_attempts src tk m i as w)) = cache w"
  by (induction as arbitrary: w) (auto simp: Let_def sleep_def split: outcome.splits)

lemma get_price_nonzero:
  assumes "\<forall>e \<in> ran (cache w). currentPrice (info e) \<noteq> Fin 0"
  shows "fst (get_price src tk w) \<noteq> Some (Fin 0) \<and>
    (\<forall>e \<in> ran (cache (snd (get_price src tk w))). currentPrice (info e) \<noteq> Fin 0)"
proof (cases "get_cached_stock_info tk 21600 w")
  case (Some i)
  then obtain e where "cache w (upper tk) = Some e" "info e = i"
    by (auto simp: get_cached_stock_info_def Let_def split: option.splits if_splits)
  then have "currentPrice i \<noteq> Fin 0"
    using assms by (auto simp: ran_def)
  then show ?thesis
    using Some assms by (simp add: get_price_def)
next
  case None
  obtain r w' where f: "fetch_stock_info src tk 5 10 w = (r, w')"
    by (cases "fetch_stock_info src tk 5 10 w")
  have c: "cache w' = cache w"
    using fetch_attempts_cache [of src tk 5 10 "[0..<5]" w] f
    by (simp add: fetch_stock_info_def)
  show ?thesis
  proof (cases r)
    case None
    with \<open>get_cached_stock_info tk 21600 w = None\<close> f c assms show ?thesis
      by (simp add: get_price_def)
  next
    case (Some i)
    have nz: "currentPrice i \<noteq> Fin 0"
      using f Some fetch_attempts_nonzero [of src tk 5 10 "[0..<5]" w i w']
      by (simp add: fetch_stock_info_def)
    have "\<forall>e \<in> ran (cache (cache_stock_info tk i w')). currentPrice (info e) \<noteq> Fin 0"
      using assms c nz by (auto simp: cache_stock_info_def ran_def split: if_splits)
    with \<open>get_cached_stock_info tk 21600 w = None\<close> f Some nz show ?thesis
      by (simp add: get_price_def)
  qed
qed

lemma set_setdefault_append:
  "(pn, l) \<in> set (setdefault_append k x ps) \<Longrightarrow>
   set l \<subseteq> insert x (\<Union>(set ` snd ` set ps))"
proof (induction ps)
  case Nil
  then show ?case by simp
next
  case (Cons a ps)
  obtain k' v where a: "a = (k', v)" by (cases a)
  show ?case
  proof (cases "k' = k")
    case True
    with Cons.prems a have "(pn, l) = (k, v @ [x]) \<or> (pn, l) \<in> set ps"
      by simp
    then show ?thesis
    proof
      assume "(pn, l) = (k, v @ [x])"
      then show ?thesis by (auto simp: a)
    next
      assume "(pn, l) \<in> set ps"
      then have "set l \<subseteq> \<Union>(set ` snd ` set ps)" by force
      then show ?thesis by auto
    qed
  next
    case False
    with Cons.prems a have "(pn, l) = (k', v) \<or> (pn, l) \<in> set (setdefault_append k x ps)"
      by simp
    then show ?thesis
    proof
      assume "(pn, l) = (k', v)"
      then show ?thesis by (auto simp: a)
    next
      assume "(pn, l) \<in> set (setdefault_append k x ps)"
      from Cons.IH [OF this] show ?thesis by auto
    qed
  qed
qed

lemma draft_prices_nonzero:
  assumes c: "\<forall>e \<in> ran (cache w). currentPrice (info e) \<noteq> Fin 0"
    and p: "\<forall>(pn, pks) \<in> set (picks d). \<forall>pk \<in> set pks. price pk \<noteq> Fin 0"
  shows "(\<forall>(pn, pks) \<in> set (picks (snd (snd (draft_post src nm raw w d)))).
            \<forall>pk \<in> set pks. price pk \<noteq> Fin 0) \<and>
         (\<forall>e \<in> ran (cache (fst (snd (draft_post src nm raw w d)))).
            currentPrice (info e) \<noteq> Fin 0)"
proof -
  let ?tk = "strip (upper raw)"
  let ?g = "get_price src ?tk w"
  let ?pk = "\<lparr>ticker = ?tk, price = the (fst ?g), time = clock (snd ?g)\<rparr>"
  from get_price_nonzero [OF c, of src ?tk]
  have g1: "fst ?g \<noteq> Some (Fin 0)"
    and g2: "\<forall>e \<in> ran (cache (snd ?g)). currentPrice (info e) \<noteq> Fin 0"
    by simp_all
  have w: "fst (snd (draft_post src nm raw w d)) = w \<or> fst (snd (draft_post src nm raw w d)) = snd ?g"
    by (simp add: draft_post_cases)
  have two: "\<forall>e \<in> ran (cache (fst (snd (draft_post src nm raw w d)))). currentPrice (info e) \<noteq> Fin 0"
    using w c g2 by auto
  have d: "snd (snd (draft_post src nm raw w d)) = d \<or>
      (fst ?g \<noteq> None \<and>
       picks (snd (snd (draft_post src nm raw w d))) = setdefault_append nm ?pk (picks d))"
    by (simp add: draft_post_cases)
  have one: "\<forall>(pn, pks) \<in> set (picks (snd (snd (draft_post src nm raw w d)))).
            \<forall>pk \<in> set pks. price pk \<noteq> Fin 0"
    using d
  proof
    assume "snd (snd (draft_post src nm raw w d)) = d"
    with p show ?thesis by simp
  next
    assume a: "fst ?g \<noteq> None \<and>
       picks (snd (snd (draft_post src nm raw w d))) = setdefault_append nm ?pk (picks d)"
    then have nz: "price ?pk \<noteq> Fin 0"
      using g1 by auto
    have old: "price pk \<noteq> Fin 0" if "pk \<in> \<Union>(set ` snd ` set (picks d))" for pk
      using that p by fastforce
    have "price pk \<noteq> Fin 0"
      if "(pn, l) \<in> set (setdefault_append nm ?pk (picks d))" "pk \<in> set l" for pn l pk
    proof -
      from set_setdefault_append [OF that(1)] that(2)
      have "pk = ?pk \<or> pk \<in> \<Union>(set ` snd ` set (picks d))"
        by blast
      with nz old show ?thesis by blast
    qed
    with a show ?thesis by auto
  qed
  from one two show ?thesis ..
qed

section \<open>Properties of an accepted trade\<close>

lemma find_first_ticker:
  "tk \<in> ticker ` set l \<Longrightarrow> \<exists>x. find (\<lambda>p. ticker p = tk) l = Some x \<and> x \<in> set l \<and> ticker x = tk"
  by (induction l) auto

lemma find_SomeD: "find P l = Some x \<Longrightarrow> P x \<and> x \<in> set l"
  by (induction l) (auto split: if_splits)

lemma map_ticker_remove1:
  "find (\<lambda>p. ticker p = tk) l = Some x \<Longrightarrow>
   map ticker (remove1 x l) = remove1 tk (map ticker l)"
proof (induction l)
  case Nil
  then show ?case by simp
next
  case (Cons a l)
  show ?case
  proof (cases "ticker a = tk")
    case True
    with Cons.prems show ?thesis by simp
  next
    case False
    with Cons.prems have f: "find (\<lambda>p. ticker p = tk) l = Some x" by simp
    from find_SomeD [OF f] False have "x \<noteq> a" by auto
    with False Cons.IH [OF f] show ?thesis by simp
  qed
qed

lemma tickers_remove1:
  "distinct (map ticker l) \<Longrightarrow> x \<in> set l \<Longrightarrow>
   ticker ` set (remove1 x l) = ticker ` set l - {ticker x}"
  by (induction l) (auto simp: image_iff)

lemma update_existing_keys:
  "map_of al k = Some v \<Longrightarrow> map fst (AList.update k v' al) = map fst al"
  by (auto simp: update_keys dest: map_of_SomeD intro: rev_image_eqI)

lemma swap_picks_result:
  assumes f: "map_of ps (from_player t) = Some fps"
    and g: "map_of ps (to_player t) = Some tps"
    and ne: "from_player t \<noteq> to_player t"
    and x: "find (\<lambda>p. ticker p = offer_ticker t) fps = Some x" "x \<in> set fps"
    and y: "find (\<lambda>p. ticker p = request_ticker t) tps = Some y" "y \<in> set tps"
  shows "\<exists>ps'. swap_picks t ps = Inr ps' \<and>
           map_of ps' = (map_of ps)(from_player t \<mapsto> remove1 x fps @ [y],
                                    to_player t \<mapsto> remove1 y tps @ [x]) \<and>
           map fst ps' = map fst ps"
proof -
  let ?f = "from_player t" and ?g = "to_player t"
  let ?ps1 = "AList.update ?f (remove1 x fps) ps"
  let ?ps2 = "AList.update ?g (remove1 y tps) ?ps1"
  let ?ps3 = "AList.update ?f (remove1 x fps @ [y]) ?ps2"
  let ?ps4 = "AList.update ?g (remove1 y tps @ [x]) ?ps3"
  have r1: "list_remove ?f x ps = Inr ?ps1"
    using f x(2) by (simp add: list_remove_def)
  have m1: "map_of ?ps1 ?g = Some tps" "map_of ?ps1 ?f = Some (remove1 x fps)"
    using g ne by (simp_all add: update_conv')
  have r2: "list_remove ?g y ?ps1 = Inr ?ps2"
    using m1(1) y(2) by (simp add: list_remove_def)
  have m2: "map_of ?ps2 ?f = Some (remove1 x fps)" "map_of ?ps2 ?g = Some (remove1 y tps)"
    using m1 ne by (simp_all add: update_conv')
  have r3: "list_append ?f y ?ps2 = Inr ?ps3"
    using m2(1) by (simp add: list_append_def)
  have m3: "map_of ?ps3 ?g = Some (remove1 y tps)"
    using m2 ne by (simp add: update_conv')
  have r4: "list_append ?g x ?ps3 = Inr ?ps4"
    using m3 by (simp add: list_append_def)
  have res: "swap_picks t ps = Inr ?ps4"
    by (simp add: swap_picks_def f g x(1) y(1) r1 r2 r3 r4)
  have mp: "map_of ?ps4 = (map_of ps)(?f \<mapsto> remove1 x fps @ [y], ?g \<mapsto> remove1 y tps @ [x])"
    using ne by (auto simp: update_conv' fun_eq_iff)
  have k1: "map fst ?ps1 = map fst ps"
    using f by (rule update_existing_keys)
  have k2: "map fst ?ps2 = map fst ?ps1"
    using m1(1) by (rule update_existing_keys)
  have k3: "map fst ?ps3 = map fst ?ps2"
    using m2(1) by (rule update_existing_keys)
  have k4: "map fst ?ps4 = map fst ?ps3"
    using m3 by (rule update_existing_keys)
  from res mp k1 k2 k3 k4 show ?thesis by simp
qed

lemma swap_picked_result:
  assumes "from_player t \<noteq> to_player t"
    and "\<And>p. p \<in> set pl \<Longrightarrow> name p = from_player t \<Longrightarrow> offer_ticker t \<in> set (picked p)"
    and "\<And>p. p \<in> set pl \<Longrightarrow> name p = to_player t \<Longrightarrow> request_ticker t \<in> set (picked p)"
  shows "swap_picked t pl =
    Inr (map (\<lambda>p. if name p = from_player t
                   then p\<lparr>picked := remove1 (offer_ticker t) (picked p) @ [request_ticker t]\<rparr>
                   else if name p = to_player t
                   then p\<lparr>picked := remove1 (request_ticker t) (picked p) @ [offer_ticker t]\<rparr>
                   else p) pl)"
  using assms(2,3)
proof (induction pl)
  case Nil
  show ?case by simp
next
  case (Cons p pl)
  have ih: "swap_picked t pl =
    Inr (map (\<lambda>p. if name p = from_player t
                   then p\<lparr>picked := remove1 (offer_ticker t) (picked p) @ [request_ticker t]\<rparr>
                   else if name p = to_player t
                   then p\<lparr>picked := remove1 (request_ticker t) (picked p) @ [offer_ticker t]\<rparr>
                   else p) pl)"
    using Cons.IH Cons.prems by simp
  have a: "name p = from_player t \<Longrightarrow> offer_ticker t \<in> set (picked p)"
    and b: "name p = to_player t \<Longrightarrow> request_ticker t \<in> set (picked p)"
    using Cons.prems by simp_all
  show ?case
    using a b by (simp add: ih)
qed

text \<open>
  C3. In a record that satisfies the two invariants, in the phase where trades operate,
  accepting a trade between two different players of whom the first holds a pick for
  the offered ticker and the second a pick for the requested ticker succeeds and swaps
  exactly those two picks: the first player's list loses the offered pick and gains the
  requested one at its end, the second player's list the reverse, so each list contains
  the ticker it received and not the one it gave, and the two lengths add up as before.
  Every other player's list is untouched and the players of \<^verbatim>\<open>data['picks']\<close> keep their
  order. In \<^verbatim>\<open>data['players']\<close> every record is kept in its place; the first player's
  \<^verbatim>\<open>picked\<close> list loses the offered ticker and gains the requested one at its end, the
  second player's the reverse, and no other record changes, so the \<^verbatim>\<open>picked\<close> lists again
  are the tickers of the pick lists. The trade's status is written in the same step, and
  nothing else of the record changes.
\<close>

theorem C3_accept_swaps_picks:
  assumes st: "status d = Done"
    and tr: "find (\<lambda>t. trade_id t = i) (trades d) = Some t"
    and ne: "from_player t \<noteq> to_player t"
    and f: "map_of (picks d) (from_player t) = Some fps"
    and g: "map_of (picks d) (to_player t) = Some tps"
    and ho: "offer_ticker t \<in> ticker ` set fps"
    and hr: "request_ticker t \<in> ticker ` set tps"
    and uq: "tickers_unique d"
    and pc: "picked_consistent d"
  shows "\<exists>d' fps' tps'.
      trade_respond i ''accepted'' d = Inr d' \<and>
      map_of (picks d') (from_player t) = Some fps' \<and>
      map_of (picks d') (to_player t) = Some tps' \<and>
      request_ticker t \<in> ticker ` set fps' \<and> offer_ticker t \<notin> ticker ` set fps' \<and>
      offer_ticker t \<in> ticker ` set tps' \<and> request_ticker t \<notin> ticker ` set tps' \<and>
      length fps' + length tps' = length fps + length tps \<and>
      (\<exists>x y. x \<in> set fps \<and> ticker x = offer_ticker t \<and>
             y \<in> set tps \<and> ticker y = request_ticker t \<and>
             fps' = remove1 x fps @ [y] \<and> tps' = remove1 y tps @ [x]) \<and>
      (\<forall>pn. pn \<noteq> from_player t \<and> pn \<noteq> to_player t \<longrightarrow>
         map_of (picks d') pn = map_of (picks d) pn) \<and>
      map fst (picks d') = map fst (picks d) \<and>
      players d' =
        map (\<lambda>p. if name p = from_player t
                  then p\<lparr>picked := remove1 (offer_ticker t) (picked p) @ [request_ticker t]\<rparr>
                  else if name p = to_player t
                  then p\<lparr>picked := remove1 (request_ticker t) (picked p) @ [offer_ticker t]\<rparr>
                  else p) (players d) \<and>
      picked_consistent d' \<and>
      trades d' = set_status_first i ''accepted'' (trades d) \<and>
      d' = d\<lparr>trades := trades d', picks := picks d', players := players d'\<rparr>"
proof -
  let ?f = "from_player t" and ?g = "to_player t"
  let ?o = "offer_ticker t" and ?r = "request_ticker t"
  from find_first_ticker [OF ho] obtain x where
    x: "find (\<lambda>p. ticker p = ?o) fps = Some x" "x \<in> set fps" "ticker x = ?o"
    by blast
  from find_first_ticker [OF hr] obtain y where
    y: "find (\<lambda>p. ticker p = ?r) tps = Some y" "y \<in> set tps" "ticker y = ?r"
    by blast
  have inf: "(?f, fps) \<in> set (picks d)" and ing: "(?g, tps) \<in> set (picks d)"
    using f g by (auto dest: map_of_SomeD)
  have df: "distinct (map ticker fps)" and dg: "distinct (map ticker tps)"
    using uq inf ing by (auto simp: tickers_unique_def)
  have dj: "ticker ` set fps \<inter> ticker ` set tps = {}"
    using uq inf ing ne by (fastforce simp: tickers_unique_def)
  have orne: "?o \<noteq> ?r"
  proof
    assume "?o = ?r"
    with ho hr have "?o \<in> ticker ` set fps \<inter> ticker ` set tps" by simp
    with dj show False by simp
  qed
  let ?fps' = "remove1 x fps @ [y]" and ?tps' = "remove1 y tps @ [x]"
  from swap_picks_result [OF f g ne x(1,2) y(1,2)] obtain ps' where
    ps: "swap_picks t (picks d) = Inr ps'"
    "map_of ps' = (map_of (picks d))(?f \<mapsto> ?fps', ?g \<mapsto> ?tps')"
    "map fst ps' = map fst (picks d)"
    by blast
  have pf: "?o \<in> set (picked p)" if "p \<in> set (players d)" "name p = ?f" for p
    using pc that f ho by (auto simp: picked_consistent_def)
  have pg: "?r \<in> set (picked p)" if "p \<in> set (players d)" "name p = ?g" for p
    using pc that g hr by (auto simp: picked_consistent_def)
  let ?h = "\<lambda>p. if name p = ?f
                   then p\<lparr>picked := remove1 ?o (picked p) @ [?r]\<rparr>
                   else if name p = ?g
                   then p\<lparr>picked := remove1 ?r (picked p) @ [?o]\<rparr>
                   else p"
  have pl: "swap_picked t (players d) = Inr (map ?h (players d))"
    using ne pf pg by (rule swap_picked_result)
  let ?d' = "d\<lparr>trades := set_status_first i ''accepted'' (trades d), picks := ps',
               players := map ?h (players d)\<rparr>"
  have res: "trade_respond i ''accepted'' d = Inr ?d'"
    by (simp add: trade_respond_def st tr ps pl)
  have mf: "map_of (picks ?d') ?f = Some ?fps'" and mg: "map_of (picks ?d') ?g = Some ?tps'"
    using ne by (simp_all add: ps(2))
  have tf: "ticker ` set (remove1 x fps) = ticker ` set fps - {?o}"
    using tickers_remove1 [OF df x(2)] x(3) by simp
  have tg: "ticker ` set (remove1 y tps) = ticker ` set tps - {?r}"
    using tickers_remove1 [OF dg y(2)] y(3) by simp
  have c1: "?r \<in> ticker ` set ?fps'"
    using y(3) by (simp add: image_Un)
  have c2: "?o \<notin> ticker ` set ?fps'"
    using tf y(3) orne by (simp add: image_Un)
  have c3: "?o \<in> ticker ` set ?tps'"
    using x(3) by (simp add: image_Un)
  have c4: "?r \<notin> ticker ` set ?tps'"
    using tg x(3) orne by (simp add: image_Un)
  have lf: "length (remove1 x fps) = length fps - 1" and lg: "length (remove1 y tps) = length tps - 1"
    using x(2) y(2) by (simp_all add: length_remove1)
  have "length fps > 0" "length tps > 0"
    using x(2) y(2) by (auto simp: length_greater_0_conv)
  with lf lg have c5: "length ?fps' + length ?tps' = length fps + length tps"
    by simp
  have c6: "\<exists>x y. x \<in> set fps \<and> ticker x = ?o \<and> y \<in> set tps \<and> ticker y = ?r \<and>
             ?fps' = remove1 x fps @ [y] \<and> ?tps' = remove1 y tps @ [x]"
    using x y by blast
  have c7: "\<forall>pn. pn \<noteq> ?f \<and> pn \<noteq> ?g \<longrightarrow> map_of (picks ?d') pn = map_of (picks d) pn"
    by (simp add: ps(2))
  have c8: "picked_consistent ?d'"
    unfolding picked_consistent_def
  proof
    fix p'
    assume "p' \<in> set (players ?d')"
    then obtain p where p: "p \<in> set (players d)" "p' = ?h p"
      by auto
    have old: "picked p = (case map_of (picks d) (name p) of None \<Rightarrow> [] | Some l \<Rightarrow> map ticker l)"
      using pc p(1) by (simp add: picked_consistent_def)
    show "picked p' =
        (case map_of (picks ?d') (name p') of None \<Rightarrow> [] | Some l \<Rightarrow> map ticker l)"
    proof (cases "name p = ?f")
      case True
      then have "picked p = map ticker fps"
        using old f by simp
      then show ?thesis
        using True p(2) ne map_ticker_remove1 [OF x(1)] y(3) by (simp add: ps(2))
    next
      case False
      show ?thesis
      proof (cases "name p = ?g")
        case True
        then have "picked p = map ticker tps"
          using old g by simp
        then show ?thesis
          using True False p(2) map_ticker_remove1 [OF y(1)] x(3) by (simp add: ps(2))
      next
        case nf: False
        with False old p(2) show ?thesis
          by (simp add: ps(2))
      qed
    qed
  qed
  have c9: "trades ?d' = set_status_first i ''accepted'' (trades d)"
    by simp
  have c10: "map fst (picks ?d') = map fst (picks d)"
    by (simp add: ps(3))
  have c11: "players ?d' = map ?h (players d)"
    by simp
  have c12: "?d' = d\<lparr>trades := trades ?d', picks := picks ?d', players := players ?d'\<rparr>"
    by simp
  from res mf mg c1 c2 c3 c4 c5 c6 c7 c8 c9 c10 c11 c12 show ?thesis
    by blast
qed

theorem C3_accept_swaps_picks_witness:
  "\<exists>d' fps' tps'.
      trade_respond 1 ''accepted'' (ex_done ''pending'') = Inr d' \<and>
      map_of (picks d') ''ann'' = Some fps' \<and>
      map_of (picks d') ''bob'' = Some tps' \<and>
      ''MSFT'' \<in> ticker ` set fps' \<and> ''AAPL'' \<notin> ticker ` set fps' \<and>
      ''AAPL'' \<in> ticker ` set tps' \<and> ''MSFT'' \<notin> ticker ` set tps' \<and>
      length fps' + length tps' = 2 \<and>
      players d' = [\<lparr>name = ''ann'', max_picks = 1, picked = [''MSFT'']\<rparr>,
                    \<lparr>name = ''bob'', max_picks = 1, picked = [''AAPL'']\<rparr>] \<and>
      map fst (picks d') = [''ann'', ''bob''] \<and>
      picked_consistent d'"
proof -
  let ?d = "ex_done ''pending''" and ?t = "ex_trade ''pending''"
  let ?fps = "[\<lparr>ticker = ''AAPL'', price = Fin 100, time = 10\<rparr>]"
  let ?tps = "[\<lparr>ticker = ''MSFT'', price = Fin 50, time = 20\<rparr>]"
  have st: "status ?d = Done"
    by (simp add: ex_done_def)
  have tr: "find (\<lambda>t. trade_id t = 1) (trades ?d) = Some ?t"
    by (simp add: ex_done_def ex_trade_def)
  have ne: "from_player ?t \<noteq> to_player ?t"
    by (simp add: ex_trade_def)
  have f: "map_of (picks ?d) (from_player ?t) = Some ?fps"
    by (simp add: ex_done_def ex_trade_def)
  have g: "map_of (picks ?d) (to_player ?t) = Some ?tps"
    by (simp add: ex_done_def ex_trade_def)
  have ho: "offer_ticker ?t \<in> ticker ` set ?fps"
    by (simp add: ex_trade_def)
  have hr: "request_ticker ?t \<in> ticker ` set ?tps"
    by (simp add: ex_trade_def)
  have uq: "tickers_unique ?d"
    by (simp add: tickers_unique_def ex_done_def)
  have pc: "picked_consistent ?d"
    by (simp add: picked_consistent_def ex_done_def)
  from C3_accept_swaps_picks [OF st tr ne f g ho hr uq pc]
  obtain d' fps' tps' where
    "trade_respond 1 ''accepted'' ?d = Inr d'"
    "map_of (picks d') (from_player ?t) = Some fps'"
    "map_of (picks d') (to_player ?t) = Some tps'"
    "request_ticker ?t \<in> ticker ` set fps'" "offer_ticker ?t \<notin> ticker ` set fps'"
    "offer_ticker ?t \<in> ticker ` set tps'" "request_ticker ?t \<notin> ticker ` set tps'"
    "length fps' + length tps' = length ?fps + length ?tps"
    "map fst (picks d') = map fst (picks ?d)"
    "players d' =
        map (\<lambda>p. if name p = from_player ?t
                  then p\<lparr>picked := remove1 (offer_ticker ?t) (picked p) @ [request_ticker ?t]\<rparr>
                  else if name p = to_player ?t
                  then p\<lparr>picked := remove1 (request_ticker ?t) (picked p) @ [offer_ticker ?t]\<rparr>
                  else p) (players ?d)"
    "picked_consistent d'"
    by blast
  then have "trade_respond 1 ''accepted'' ?d = Inr d' \<and>
      map_of (picks d') ''ann'' = Some fps' \<and>
      map_of (picks d') ''bob'' = Some tps' \<and>
      ''MSFT'' \<in> ticker ` set fps' \<and> ''AAPL'' \<notin> ticker ` set fps' \<and>
      ''AAPL'' \<in> ticker ` set tps' \<and> ''MSFT'' \<notin> ticker ` set tps' \<and>
      length fps' + length tps' = 2 \<and>
      players d' = [\<lparr>name = ''ann'', max_picks = 1, picked = [''MSFT'']\<rparr>,
                    \<lparr>name = ''bob'', max_picks = 1, picked = [''AAPL'']\<rparr>] \<and>
      map fst (picks d') = [''ann'', ''bob''] \<and>
      picked_consistent d'"
    by (simp add: ex_trade_def ex_done_def)
  then show ?thesis
    by - (rule exI [of _ d'], rule exI [of _ fps'], rule exI [of _ tps'], assumption)
qed

end
